theory Spec2Isabelle
  imports Main "HOL-Library.Word"
begin

unbundle bit_operations_syntax

section \<open>A shallow embedding of lib/misc/lecp.c, the stream parser for RFC 8949 CBOR\<close>

text \<open>
  The embedding follows \<^verbatim>\<open>lecp.c\<close> function by function and label by label.
  The context structure is a record; the arrays of the context are lists whose
  lengths are the compile-time capacities (\<^verbatim>\<open>LWS_ARRAY_SIZE(ctx->st)\<close> is
  \<open>length (ctx_st c)\<close>, \<^verbatim>\<open>sizeof(ctx->path)\<close> is \<open>length (ctx_path c)\<close>, and so on),
  so no capacity is fixed by the model. The callback is a function of the context it
  is shown, the reason and the state of the user; every call is also appended to a
  log, with the context as the callback saw it.
\<close>

subsection \<open>Constants of the wire format and of the interface\<close>

type_synonym byte = "8 word"

text \<open>
  Modelled from the spec: the head-byte constants of the header \<^verbatim>\<open>lws-lecp.h\<close>, which
  is not part of the sources. Section 4.A of the specification gives the masks
  (\<open>0xE0\<close> and \<open>0x1F\<close>) and the meaning of the minor values, section 4.F the minor
  values of major type 7.
\<close>

abbreviation (input) LWS_CBOR_MAJTYP_UINT :: byte where "LWS_CBOR_MAJTYP_UINT \<equiv> 0x00"
abbreviation (input) LWS_CBOR_MAJTYP_INT_NEG :: byte where "LWS_CBOR_MAJTYP_INT_NEG \<equiv> 0x20"
abbreviation (input) LWS_CBOR_MAJTYP_BSTR :: byte where "LWS_CBOR_MAJTYP_BSTR \<equiv> 0x40"
abbreviation (input) LWS_CBOR_MAJTYP_TSTR :: byte where "LWS_CBOR_MAJTYP_TSTR \<equiv> 0x60"
abbreviation (input) LWS_CBOR_MAJTYP_ARRAY :: byte where "LWS_CBOR_MAJTYP_ARRAY \<equiv> 0x80"
abbreviation (input) LWS_CBOR_MAJTYP_MAP :: byte where "LWS_CBOR_MAJTYP_MAP \<equiv> 0xA0"
abbreviation (input) LWS_CBOR_MAJTYP_TAG :: byte where "LWS_CBOR_MAJTYP_TAG \<equiv> 0xC0"
abbreviation (input) LWS_CBOR_MAJTYP_FLOAT :: byte where "LWS_CBOR_MAJTYP_FLOAT \<equiv> 0xE0"
abbreviation (input) LWS_CBOR_MAJTYP_MASK :: byte where "LWS_CBOR_MAJTYP_MASK \<equiv> 0xE0"
abbreviation (input) LWS_CBOR_SUBMASK :: byte where "LWS_CBOR_SUBMASK \<equiv> 0x1F"
abbreviation (input) LWS_CBOR_1 :: byte where "LWS_CBOR_1 \<equiv> 24"
abbreviation (input) LWS_CBOR_RESERVED :: byte where "LWS_CBOR_RESERVED \<equiv> 28"
abbreviation (input) LWS_CBOR_INDETERMINITE :: byte where "LWS_CBOR_INDETERMINITE \<equiv> 31"
abbreviation (input) LWS_CBOR_SWK_FALSE :: byte where "LWS_CBOR_SWK_FALSE \<equiv> 20"
abbreviation (input) LWS_CBOR_SWK_TRUE :: byte where "LWS_CBOR_SWK_TRUE \<equiv> 21"
abbreviation (input) LWS_CBOR_SWK_NULL :: byte where "LWS_CBOR_SWK_NULL \<equiv> 22"
abbreviation (input) LWS_CBOR_SWK_UNDEFINED :: byte where "LWS_CBOR_SWK_UNDEFINED \<equiv> 23"
abbreviation (input) LWS_CBOR_M7_SUBTYP_SIMPLE_X8 :: byte where "LWS_CBOR_M7_SUBTYP_SIMPLE_X8 \<equiv> 24"
abbreviation (input) LWS_CBOR_M7_SUBTYP_FLOAT16 :: byte where "LWS_CBOR_M7_SUBTYP_FLOAT16 \<equiv> 25"
abbreviation (input) LWS_CBOR_M7_SUBTYP_FLOAT32 :: byte where "LWS_CBOR_M7_SUBTYP_FLOAT32 \<equiv> 26"
abbreviation (input) LWS_CBOR_M7_SUBTYP_FLOAT64 :: byte where "LWS_CBOR_M7_SUBTYP_FLOAT64 \<equiv> 27"
abbreviation (input) LWS_CBOR_M7_BREAK :: byte where "LWS_CBOR_M7_BREAK \<equiv> 31"

text \<open>
  The return codes. \<^verbatim>\<open>lecp_error_to_string\<close> indexes the table \<^verbatim>\<open>parser_errs\<close> of the
  source with the negated code, which fixes the numbers: 2 is bad coding, 4 the
  callback's refusal, 5 overflow; \<open>-1\<close> asks for more input.
\<close>

abbreviation (input) LECP_CONTINUE :: int where "LECP_CONTINUE \<equiv> - 1"
abbreviation (input) LECP_REJECT_BAD_CODING :: int where "LECP_REJECT_BAD_CODING \<equiv> - 2"
abbreviation (input) LECP_REJECT_UNKNOWN :: int where "LECP_REJECT_UNKNOWN \<equiv> - 3"
abbreviation (input) LECP_REJECT_CALLBACK :: int where "LECP_REJECT_CALLBACK \<equiv> - 4"
abbreviation (input) LECP_STACK_OVERFLOW :: int where "LECP_STACK_OVERFLOW \<equiv> - 5"

text \<open>
  Modelled from the spec: the callback reasons (\<^verbatim>\<open>enum lecp_callbacks\<close> of the missing
  header), one constructor per event of section 6. The source computes the string events
  by arithmetic on the enumeration: it adds \<^verbatim>\<open>to = LECPCB_VAL_BLOB_END - LECPCB_VAL_STR_END\<close>
  to a text-string event to get the byte-string one, and decrements an END event to
  get the CHUNK event. Section 6 states these offset relations; \<open>str_start\<close>,
  \<open>str_chunk\<close> and \<open>str_end\<close> below are that arithmetic, with \<open>to\<close> as a flag.
\<close>

datatype lecp_callbacks =
    LECPCB_CONSTRUCTED | LECPCB_DESTRUCTED | LECPCB_COMPLETE | LECPCB_FAILED
  | LECPCB_VAL_TRUE | LECPCB_VAL_FALSE | LECPCB_VAL_NULL | LECPCB_VAL_NUM_INT
  | LECPCB_VAL_STR_START | LECPCB_VAL_STR_CHUNK | LECPCB_VAL_STR_END
  | LECPCB_ARRAY_START | LECPCB_ARRAY_END | LECPCB_OBJECT_START | LECPCB_OBJECT_END
  | LECPCB_TAG_START | LECPCB_TAG_END
  | LECPCB_VAL_NUM_UINT | LECPCB_VAL_UNDEFINED
  | LECPCB_VAL_FLOAT16 | LECPCB_VAL_FLOAT32 | LECPCB_VAL_FLOAT64 | LECPCB_VAL_SIMPLE
  | LECPCB_VAL_BLOB_START | LECPCB_VAL_BLOB_CHUNK | LECPCB_VAL_BLOB_END

definition str_start :: "bool \<Rightarrow> lecp_callbacks" where
  "str_start to = (if to then LECPCB_VAL_BLOB_START else LECPCB_VAL_STR_START)"

definition str_chunk :: "bool \<Rightarrow> lecp_callbacks" where
  "str_chunk to = (if to then LECPCB_VAL_BLOB_CHUNK else LECPCB_VAL_STR_CHUNK)"

definition str_end :: "bool \<Rightarrow> lecp_callbacks" where
  "str_end to = (if to then LECPCB_VAL_BLOB_END else LECPCB_VAL_STR_END)"

datatype lecp_states = LECP_OPC | LECP_COLLECT | LECP_SIMPLEX8 | LECP_COLLATE | LECP_ONLY_SAME

subsection \<open>The context\<close>

text \<open>
  \<^verbatim>\<open>struct _lecp_stack\<close>, the fields \<^verbatim>\<open>lecp.c\<close> uses. The \<^verbatim>\<open>uint8_t\<close> cursor \<open>p\<close> is a
  natural number; \<open>indet\<close> and \<open>intermediate\<close> are used as flags; \<open>pop_iss\<close> is
  \<open>None\<close> where the C field is 0 (nothing to issue).
\<close>

record lecp_stack =
  st_s :: lecp_states
  st_p :: nat
  st_indet :: bool
  st_intermediate :: bool
  st_pop_iss :: "lecp_callbacks option"
  st_tag :: "64 word"
  st_collect_rem :: "64 word"
  st_ordinal :: "32 word"
  st_opcode :: byte

text \<open>
  \<^verbatim>\<open>struct lecp_ctx\<close>. The parsing stack \<^verbatim>\<open>pst\<close> is only ever used at level
  \<^verbatim>\<open>pst_sp = 0\<close> in this file, so its fields \<open>ppos\<close>, \<open>paths\<close> and \<open>count_paths\<close>
  are fields of the context here (its callback is held beside the context, see
  \<open>lecp\<close> below). The item union \<^verbatim>\<open>item.u\<close> is the 64-bit word \<open>ctx_item_u\<close>, read
  as \<^verbatim>\<open>u64\<close>; \<open>sint\<close> of it is the \<^verbatim>\<open>i64\<close> view. \<open>ctx_collect_tgt\<close> is the offset of
  the pointer \<^verbatim>\<open>collect_tgt\<close> from the start of the union. The \<^verbatim>\<open>uint8_t\<close> cursors
  are natural numbers, reduced modulo 256 where the source stores into them.
  \<open>ctx_paths\<close> is the array of patterns, each without its terminating NUL; the
  stride of that array is a matter of memory layout and is not modelled.

  \<open>ctx_ub\<close> is not a field of the C structure: it records that the C code has left
  defined behaviour (a failed \<^verbatim>\<open>assert\<close>, or a store outside an array, which the model
  leaves out). Nothing is claimed about a run once it is set.
\<close>

record lecp_ctx =
  ctx_st :: "lecp_stack list"
  ctx_i :: "16 word list"
  ctx_wild :: "16 word list"
  ctx_path :: "byte list"
  ctx_buf :: "byte list"
  ctx_item_opcode :: byte
  ctx_item_u :: "64 word"
  ctx_collect_tgt :: int
  ctx_present :: lecp_callbacks
  ctx_be :: bool
  ctx_npos :: nat
  ctx_sp :: nat
  ctx_ipos :: nat
  ctx_path_match :: nat
  ctx_path_match_len :: nat
  ctx_wildcount :: nat
  ctx_ppos :: nat
  ctx_paths :: "byte list list"
  ctx_count_paths :: nat
  ctx_ub :: bool

text \<open>
  The parser with its collaborators: the context, the callback \<^verbatim>\<open>pst[0].cb\<close>, the
  state behind \<^verbatim>\<open>ctx->user\<close>, and the log of the calls made to the callback. The
  callback returns its \<^verbatim>\<open>signed char\<close> and the new state of the user; by the
  contract of section 6 it does not change the context.
\<close>

type_synonym 'u lecp_callback = "lecp_ctx \<Rightarrow> lecp_callbacks \<Rightarrow> 'u \<Rightarrow> int \<times> 'u"

record 'u lecp =
  ctx :: lecp_ctx
  cb :: "'u lecp_callback"
  user :: 'u
  evs :: "(lecp_callbacks \<times> lecp_ctx) list"

text \<open>\<^verbatim>\<open>ctx->pst[ctx->pst_sp].cb(ctx, reason)\<close>: the flag says whether the result was non-zero.\<close>

definition call_cb :: "lecp_callbacks \<Rightarrow> 'u lecp \<Rightarrow> bool \<times> 'u lecp" where
  "call_cb reason h =
     (case cb h (ctx h) reason (user h) of
        (r, u) \<Rightarrow> (r \<noteq> 0, h\<lparr>user := u, evs := evs h @ [(reason, ctx h)]\<rparr>))"

definition upd :: "(lecp_ctx \<Rightarrow> lecp_ctx) \<Rightarrow> 'u lecp \<Rightarrow> 'u lecp" where
  "upd f h = h\<lparr>ctx := f (ctx h)\<rparr>"

text \<open>The frame \<^verbatim>\<open>ctx->st[ctx->sp]\<close> and its parent \<^verbatim>\<open>ctx->st[ctx->sp - 1]\<close>.\<close>

definition top :: "lecp_ctx \<Rightarrow> lecp_stack" where
  "top c = ctx_st c ! ctx_sp c"

definition set_top :: "(lecp_stack \<Rightarrow> lecp_stack) \<Rightarrow> lecp_ctx \<Rightarrow> lecp_ctx" where
  "set_top f c = c\<lparr>ctx_st := (ctx_st c)[ctx_sp c := f (ctx_st c ! ctx_sp c)]\<rparr>"

definition lwcp_st_parent :: "lecp_ctx \<Rightarrow> lecp_stack" where
  "lwcp_st_parent c = ctx_st c ! (ctx_sp c - 1)"

definition set_parent :: "(lecp_stack \<Rightarrow> lecp_stack) \<Rightarrow> lecp_ctx \<Rightarrow> lecp_ctx" where
  "set_parent f c = c\<lparr>ctx_st := (ctx_st c)[ctx_sp c - 1 := f (ctx_st c ! (ctx_sp c - 1))]\<rparr>"

text \<open>A store \<^verbatim>\<open>ctx->path[k] = v\<close>; outside the array it is undefined behaviour.\<close>

definition path_store :: "nat \<Rightarrow> byte \<Rightarrow> lecp_ctx \<Rightarrow> lecp_ctx" where
  "path_store k v c =
     (if k < length (ctx_path c) then c\<lparr>ctx_path := (ctx_path c)[k := v]\<rparr>
      else c\<lparr>ctx_ub := True\<rparr>)"

text \<open>\<^verbatim>\<open>ctx->npos = 0; ctx->buf[0] = '\0';\<close>\<close>

definition buf_reset :: "lecp_ctx \<Rightarrow> lecp_ctx" where
  "buf_reset c = c\<lparr>ctx_npos := 0, ctx_buf := (ctx_buf c)[0 := 0]\<rparr>"

text \<open>
  The item union in memory: a store of one byte at offset \<open>k\<close> of the eight bytes
  of \<^verbatim>\<open>item.u\<close>. On a little-endian host offset \<open>k\<close> holds bits \<open>8k .. 8k+7\<close> of the
  \<^verbatim>\<open>u64\<close>, on a big-endian host bits \<open>8(7-k) .. 8(7-k)+7\<close>.
\<close>

definition union_store :: "bool \<Rightarrow> nat \<Rightarrow> byte \<Rightarrow> 64 word \<Rightarrow> 64 word" where
  "union_store be k v w =
     (let sh = 8 * (if be then 7 - k else k)
      in (w AND NOT (push_bit sh 0xFF)) OR push_bit sh (ucast v))"

subsection \<open>\<^verbatim>\<open>ex\<close>: set up the collection of a big-endian argument\<close>

definition ex :: "lecp_ctx \<Rightarrow> int \<Rightarrow> nat \<Rightarrow> lecp_ctx" where
  "ex c start len =
     (set_top (\<lambda>f. f\<lparr>st_s := LECP_COLLECT, st_collect_rem := of_nat (len mod 256)\<rparr>) c)
       \<lparr>ctx_collect_tgt := (if ctx_be c then start else start + int len - 1)\<rparr>"

subsection \<open>\<^verbatim>\<open>lecp_check_path_match\<close>\<close>

text \<open>
  A C string read at an index: the byte there, and the terminating NUL at the end of
  a pattern (which \<open>ctx_paths\<close> holds without it). The loops below stop at a NUL, so
  they never read further.
\<close>

definition cstr_at :: "byte list \<Rightarrow> nat \<Rightarrow> byte" where
  "cstr_at xs k = (if k < length xs then xs ! k else 0)"

text \<open>\<^verbatim>\<open>while (*p && (*p != '.' || !*q)) p++;\<close> with \<open>q\<close> already past the star.\<close>

function skip_wild :: "byte list \<Rightarrow> byte list \<Rightarrow> nat \<Rightarrow> nat \<Rightarrow> nat" where
  "skip_wild path pat p q =
     (if cstr_at path p \<noteq> 0 \<and> (cstr_at path p \<noteq> 0x2E \<or> cstr_at pat q = 0)
      then skip_wild path pat (p + 1) q else p)"
  by pat_completeness auto
termination
  by (relation "measure (\<lambda>(path, pat, p, q). length path - p)")
     (auto simp: cstr_at_def split: if_splits)

declare skip_wild.simps [simp del]

text \<open>
  The wildcard array with its count and the undefined-behaviour flag:
  \<^verbatim>\<open>ctx->wild[ctx->wildcount++] = (uint16_t)(p - ctx->path)\<close>.
\<close>

type_synonym wilds = "16 word list \<times> nat \<times> bool"

definition wild_store :: "nat \<Rightarrow> wilds \<Rightarrow> wilds" where
  "wild_store p w =
     (case w of (wild, wildcount, ub) \<Rightarrow>
        (if wildcount < length wild then wild[wildcount := of_nat p] else wild,
         (wildcount + 1) mod 256,
         ub \<or> \<not> wildcount < length wild))"

text \<open>The scan of one pattern: the loop \<^verbatim>\<open>while (*p && *q)\<close>; it returns both cursors.\<close>

function match_scan :: "byte list \<Rightarrow> byte list \<Rightarrow> nat \<Rightarrow> nat \<Rightarrow> wilds \<Rightarrow> nat \<times> nat \<times> wilds" where
  "match_scan path pat p q w =
     (if cstr_at path p \<noteq> 0 \<and> cstr_at pat q \<noteq> 0 then
        (if cstr_at pat q \<noteq> 0x2A then
           (if cstr_at path p \<noteq> cstr_at pat q then (p, q, w)
            else match_scan path pat (p + 1) (q + 1) w)
         else match_scan path pat (skip_wild path pat p (q + 1)) (q + 1) (wild_store p w))
      else (p, q, w))"
  by pat_completeness auto
termination
  by (relation "measure (\<lambda>(path, pat, p, q, w). length pat - q)")
     (auto simp: cstr_at_def split: if_splits)

declare match_scan.simps [simp del]

text \<open>
  The loop over the patterns, \<^verbatim>\<open>for (n = 0; !ctx->path_match && n < count_paths; n++)\<close>,
  entered with no match active. It returns the match index (0 for none) and the
  wildcard state.
\<close>

function match_paths :: "byte list \<Rightarrow> byte list list \<Rightarrow> nat \<Rightarrow> nat \<Rightarrow> wilds \<Rightarrow> nat \<times> wilds" where
  "match_paths path paths count n w =
     (if n < count then
        (case match_scan path (paths ! n) 0 0 (fst w, 0, snd (snd w)) of
           (p, q, w') \<Rightarrow>
             if cstr_at path p \<noteq> 0 \<or> cstr_at (paths ! n) q \<noteq> 0
             then match_paths path paths count (n + 1) w'
             else ((n + 1) mod 256, w'))
      else (0, w))"
  by pat_completeness auto
termination
  by (relation "measure (\<lambda>(path, paths, count, n, w). count - n)") auto

declare match_paths.simps [simp del]

definition lecp_check_path_match :: "lecp_ctx \<Rightarrow> lecp_ctx" where
  "lecp_check_path_match c =
     (if ctx_path_match c \<noteq> 0 then c
      else
        (case match_paths (ctx_path c) (ctx_paths c) (ctx_count_paths c) 0
                (ctx_wild c, ctx_wildcount c, ctx_ub c) of
           (m, wild, wildcount, ub) \<Rightarrow>
             if m \<noteq> 0
             then c\<lparr>ctx_wild := wild, ctx_wildcount := wildcount, ctx_ub := ub,
                    ctx_path_match := m, ctx_path_match_len := ctx_ppos c\<rparr>
             else c\<lparr>ctx_wild := wild, ctx_wildcount := 0, ctx_ub := ub\<rparr>))"

lemma check_path_match_sp: "ctx_sp (lecp_check_path_match c) = ctx_sp c"
  unfolding lecp_check_path_match_def
  by (cases "match_paths (ctx_path c) (ctx_paths c) (ctx_count_paths c) 0
               (ctx_wild c, ctx_wildcount c, ctx_ub c)") simp

subsection \<open>\<^verbatim>\<open>lecp_push\<close> and \<^verbatim>\<open>lecp_pop\<close>\<close>

text \<open>
  \<^verbatim>\<open>lecp_push\<close>: the overflow check, the optional start event, then the top frame is
  given its pop event and cloned into the new top, whose state, count and flags are
  reset. An argument of 0 for an event is \<open>None\<close>.
\<close>

definition lecp_push ::
  "'u lecp \<Rightarrow> lecp_callbacks option \<Rightarrow> lecp_callbacks option \<Rightarrow> lecp_states \<Rightarrow> int \<times> 'u lecp" where
  "lecp_push h s_start s_end state =
     (if ctx_sp (ctx h) + 1 = length (ctx_st (ctx h)) then (LECP_STACK_OVERFLOW, h)
      else
        (case (case s_start of None \<Rightarrow> (False, h) | Some e \<Rightarrow> call_cb e h) of
           (rej, h1) \<Rightarrow>
             if rej then (LECP_REJECT_CALLBACK, h1)
             else
               (0, upd (\<lambda>c.
                  let sp = ctx_sp c;
                      parent = (ctx_st c ! sp)\<lparr>st_pop_iss := s_end\<rparr>;
                      child = parent\<lparr>st_s := state, st_collect_rem := 0,
                                st_intermediate := False, st_indet := False, st_ordinal := 0\<rparr>
                  in c\<lparr>ctx_st := (ctx_st c)[sp := parent, sp + 1 := child],
                       ctx_sp := (sp + 1) mod 256\<rparr>) h1)))"

text \<open>
  \<^verbatim>\<open>lecp_pop\<close>. Where \<^verbatim>\<open>assert(ctx->sp)\<close> or \<^verbatim>\<open>assert(ctx->ipos)\<close> would fail the model
  sets \<open>ctx_ub\<close> and leaves the decrement out.
\<close>

definition lecp_pop :: "'u lecp \<Rightarrow> int \<times> 'u lecp" where
  "lecp_pop h =
     (if ctx_sp (ctx h) = 0 then (0, upd (\<lambda>c. c\<lparr>ctx_ub := True\<rparr>) h)
      else
        let c = ctx h;
            sp = ctx_sp c - 1;
            stf = ctx_st c ! sp;
            c1 = c\<lparr>ctx_sp := sp\<rparr>;
            c2 = (if st_pop_iss stf = Some LECPCB_ARRAY_END
                  then (if ctx_ipos c1 = 0 then c1\<lparr>ctx_ub := True\<rparr>
                        else c1\<lparr>ctx_ipos := ctx_ipos c1 - 1\<rparr>)
                  else c1);
            c3 = path_store (st_p stf) 0 (c2\<lparr>ctx_ppos := st_p stf\<rparr>);
            h4 = h\<lparr>ctx := lecp_check_path_match c3\<rparr>
        in (case st_pop_iss stf of
              None \<Rightarrow> (0, h4)
            | Some e \<Rightarrow>
                (case call_cb e h4 of
                   (rej, h5) \<Rightarrow> if rej then (LECP_REJECT_CALLBACK, h5) else (0, h5))))"

lemma call_cb_ctx: "call_cb e h = (r, h') \<Longrightarrow> ctx h' = ctx h"
  by (auto simp: call_cb_def split: prod.splits)

lemma path_store_sp: "ctx_sp (path_store k v c) = ctx_sp c"
  by (simp add: path_store_def)

lemma lecp_pop_sp:
  assumes "(r, h') = lecp_pop h" and "ctx_sp (ctx h) \<noteq> 0"
  shows "ctx_sp (ctx h') = ctx_sp (ctx h) - 1"
proof (cases "st_pop_iss (ctx_st (ctx h) ! (ctx_sp (ctx h) - 1))")
  case None
  with assms show ?thesis
    by (auto simp: lecp_pop_def Let_def check_path_match_sp path_store_sp)
next
  case (Some e)
  with assms show ?thesis
    by (auto simp: lecp_pop_def Let_def check_path_match_sp path_store_sp
        split: prod.splits if_splits dest!: call_cb_ctx)
qed

lemma ctx_upd: "ctx (upd f h) = f (ctx h)"
  by (simp add: upd_def)

lemma set_parent_sp: "ctx_sp (set_parent f c) = ctx_sp c"
  by (simp add: set_parent_def)

lemma set_top_sp: "ctx_sp (set_top f c) = ctx_sp c"
  by (simp add: set_top_def)

subsection \<open>\<^verbatim>\<open>lwcp_completed\<close>\<close>

text \<open>\<^verbatim>\<open>assert(il); il--; ctx->i[il]++;\<close> on the local copy \<open>il\<close> of \<^verbatim>\<open>ctx->ipos\<close>.\<close>

definition i_incr :: "nat \<Rightarrow> lecp_ctx \<Rightarrow> lecp_ctx" where
  "i_incr il c =
     (if il = 0 \<or> \<not> il - 1 < length (ctx_i c) then c\<lparr>ctx_ub := True\<rparr>
      else c\<lparr>ctx_i := (ctx_i c)[il - 1 := ctx_i c ! (il - 1) + 1]\<rparr>)"

lemma i_incr_sp: "ctx_sp (i_incr il c) = ctx_sp c"
  by (simp add: i_incr_def)

text \<open>
  The loop \<^verbatim>\<open>while (ctx->sp)\<close> of \<^verbatim>\<open>lwcp_completed\<close>: one ancestor per round, until
  one still waits for children, an indefinite one waits for its break, the callback
  refuses a pop event, or the stack is empty.
\<close>

function lwcp_completed_loop :: "'u lecp \<Rightarrow> bool \<Rightarrow> nat \<Rightarrow> int \<times> 'u lecp" where
  "lwcp_completed_loop h indet il =
     (if ctx_sp (ctx h) = 0 then (0, h)
      else
        let parent = lwcp_st_parent (ctx h);
            h1 = upd (set_parent (\<lambda>f. f\<lparr>st_ordinal := st_ordinal f + 1\<rparr>)) h;
            is_array = (st_opcode parent = LWS_CBOR_MAJTYP_ARRAY);
            h2 = (if is_array then upd (i_incr il) h1 else h1);
            il' = (if is_array then il - 1 else il)
        in if \<not> indet \<and> st_indet parent then (0, h2)
           else
             let dec = (\<not> st_indet parent \<and> st_collect_rem parent \<noteq> 0);
                 h3 = (if dec
                       then upd (set_parent (\<lambda>f. f\<lparr>st_collect_rem := st_collect_rem f - 1\<rparr>)) h2
                       else h2)
             in if dec \<and> st_collect_rem parent - 1 \<noteq> 0 then (0, h3)
                else
                  (case lecp_pop (upd (set_parent (\<lambda>f. f\<lparr>st_s := LECP_OPC\<rparr>)) h3) of
                     (r, h4) \<Rightarrow>
                       if r \<noteq> 0 then (r, h4) else lwcp_completed_loop h4 False il'))"
  by pat_completeness auto
termination
  apply (relation "measure (\<lambda>(h, indet, il). ctx_sp (ctx h))")
   apply simp
  apply (drule lecp_pop_sp)
   apply (simp_all add: ctx_upd set_parent_sp i_incr_sp split: if_splits)
  done

declare lwcp_completed_loop.simps [simp del]

definition lwcp_completed :: "'u lecp \<Rightarrow> bool \<Rightarrow> int \<times> 'u lecp" where
  "lwcp_completed h indet =
     lwcp_completed_loop (upd (set_top (\<lambda>f. f\<lparr>st_s := LECP_OPC\<rparr>)) h) indet (ctx_ipos (ctx h))"

definition lwcp_is_indet_string :: "lecp_ctx \<Rightarrow> bool" where
  "lwcp_is_indet_string c =
     (if st_indet (top c) then True
      else if ctx_sp c = 0 then False
      else if st_opcode (lwcp_st_parent c) \<noteq> LWS_CBOR_MAJTYP_BSTR \<and>
              st_opcode (lwcp_st_parent c) \<noteq> LWS_CBOR_MAJTYP_TSTR then False
      else if st_indet (ctx_st c ! (ctx_sp c - 1)) then True
      else False)"

subsection \<open>\<^verbatim>\<open>lecp_parse\<close>: the labels\<close>

text \<open>
  What one round of the loop \<^verbatim>\<open>while (len--)\<close> ends with: \<^verbatim>\<open>continue\<close> (or \<^verbatim>\<open>break\<close> out
  of the switch), or a \<^verbatim>\<open>return\<close> from \<^verbatim>\<open>lecp_parse\<close>.
\<close>

datatype 'u flow = Next "'u lecp" | Return int "'u lecp"

text \<open>The label \<^verbatim>\<open>reject\<close>, reached with \<open>ret\<close> set: the FAILED callback, then the return.\<close>

definition reject :: "int \<Rightarrow> 'u lecp \<Rightarrow> 'u flow" where
  "reject ret h = Return ret (snd (call_cb LECPCB_FAILED h))"

definition reject_overflow :: "'u lecp \<Rightarrow> 'u flow" where
  "reject_overflow h = reject LECP_STACK_OVERFLOW h"

definition bad_coding :: "'u lecp \<Rightarrow> 'u flow" where
  "bad_coding h = reject LECP_REJECT_BAD_CODING h"

definition reject_callback :: "'u lecp \<Rightarrow> 'u flow" where
  "reject_callback h = reject LECP_REJECT_CALLBACK h"

text \<open>
  The label \<^verbatim>\<open>start_tag_enclosure\<close>: a result of \<^verbatim>\<open>lecp_push\<close> other than 0 is returned
  at once, without passing the label \<^verbatim>\<open>reject\<close>.
\<close>

definition start_tag_enclosure :: "'u lecp \<Rightarrow> 'u flow" where
  "start_tag_enclosure h =
     (case lecp_push (upd (\<lambda>c. set_top (\<lambda>f. f\<lparr>st_p := ctx_ppos c\<rparr>) c) h)
             (Some LECPCB_TAG_START) (Some LECPCB_TAG_END) LECP_OPC of
        (ret, h1) \<Rightarrow> if ret \<noteq> 0 then Return ret h1 else Next h1)"

text \<open>The label \<^verbatim>\<open>issue\<close>. The result of \<^verbatim>\<open>lwcp_completed\<close> is not looked at.\<close>

definition issue :: "'u lecp \<Rightarrow> 'u flow" where
  "issue h =
     (if ctx_item_opcode (ctx h) = LWS_CBOR_MAJTYP_TAG
      then start_tag_enclosure (upd (\<lambda>c. set_top (\<lambda>f. f\<lparr>st_tag := ctx_item_u c\<rparr>) c) h)
      else
        (case call_cb (ctx_present (ctx h)) h of
           (rej, h1) \<Rightarrow>
             if rej then reject_callback h1 else Next (snd (lwcp_completed h1 False))))"

text \<open>
  The label \<^verbatim>\<open>i2\<close>: a reserved minor is bad coding; otherwise the union is cleared and
  \<^verbatim>\<open>o = (uint8_t)(1 << (sm - LWS_CBOR_1))\<close> bytes are collected into \<^verbatim>\<open>item.u.u64\<close>.
\<close>

definition i2 :: "'u lecp \<Rightarrow> byte \<Rightarrow> 'u flow" where
  "i2 h sm =
     (if sm \<ge> LWS_CBOR_RESERVED then bad_coding h
      else Next (upd (\<lambda>c. ex (c\<lparr>ctx_item_u := 0\<rparr>) 0 ((2 ^ unat (sm - LWS_CBOR_1)) mod 256)) h))"

text \<open>The labels \<^verbatim>\<open>push_a\<close> and \<^verbatim>\<open>push_m\<close>; the result of \<^verbatim>\<open>lecp_push\<close> is dropped.\<close>

definition push_a :: "'u lecp \<Rightarrow> 'u flow" where
  "push_a h = Next (snd (lecp_push h None (Some LECPCB_ARRAY_END) LECP_OPC))"

definition push_m :: "'u lecp \<Rightarrow> 'u flow" where
  "push_m h = Next (snd (lecp_push h None (Some LECPCB_OBJECT_END) LECP_OPC))"

subsection \<open>\<^verbatim>\<open>lecp_parse\<close>: the state \<^verbatim>\<open>LECP_OPC\<close>\<close>

text \<open>The cases \<^verbatim>\<open>LWS_CBOR_MAJTYP_BSTR\<close> (\<open>to\<close> set) and \<^verbatim>\<open>LWS_CBOR_MAJTYP_TSTR\<close>.\<close>

definition opc_string :: "'u lecp \<Rightarrow> byte \<Rightarrow> bool \<Rightarrow> 'u flow" where
  "opc_string h sm to =
     (let h0 = upd buf_reset h in
      case (if ctx_sp (ctx h0) = 0 \<or> \<not> st_intermediate (lwcp_st_parent (ctx h0))
            then call_cb (str_start to) h0 else (False, h0)) of
        (rej, h1) \<Rightarrow>
          if rej then reject_callback h1
          else if sm = 0 then
            (case call_cb (str_end to) h1 of
               (rej2, h2) \<Rightarrow>
                 if rej2 then reject_callback h2 else Next (snd (lwcp_completed h2 False)))
          else if sm < LWS_CBOR_1 then
            Next (upd (set_top (\<lambda>f. f\<lparr>st_indet := False, st_collect_rem := ucast sm,
                                      st_s := LECP_COLLATE\<rparr>)) h1)
          else if sm < LWS_CBOR_RESERVED then i2 h1 sm
          else if sm \<noteq> LWS_CBOR_INDETERMINITE then bad_coding h1
          else
            Next (snd (lecp_push
                   (upd (\<lambda>c. set_top (\<lambda>f. f\<lparr>st_indet := True, st_p := ctx_ppos c\<rparr>) c) h1)
                   None (Some (str_end to)) LECP_ONLY_SAME)))"

text \<open>
  The case \<^verbatim>\<open>LWS_CBOR_MAJTYP_ARRAY\<close>. \<open>array_path\<close> is the part between the two
  overflow checks: the cursor is saved in the frame, \<^verbatim>\<open>[]\<close> and a NUL are appended
  to the path, and the patterns are matched.
\<close>

definition array_path :: "lecp_ctx \<Rightarrow> lecp_ctx" where
  "array_path c =
     (let c1 = set_top (\<lambda>f. f\<lparr>st_p := ctx_ppos c\<rparr>) c;
          c2 = (path_store (ctx_ppos c1) 0x5B c1)\<lparr>ctx_ppos := (ctx_ppos c1 + 1) mod 256\<rparr>;
          c3 = (path_store (ctx_ppos c2) 0x5D c2)\<lparr>ctx_ppos := (ctx_ppos c2 + 1) mod 256\<rparr>
      in lecp_check_path_match (path_store (ctx_ppos c3) 0 c3))"

text \<open>
  The end of an empty array or map, done in place:
  \<^verbatim>\<open>pst->ppos = st->p; ctx->path[pst->ppos] = '\0';\<close>, for an array \<^verbatim>\<open>ctx->ipos--;\<close>, then
  the match.
\<close>

definition empty_container_path :: "bool \<Rightarrow> lecp_ctx \<Rightarrow> lecp_ctx" where
  "empty_container_path is_array c =
     (let c1 = path_store (st_p (top c)) 0 (c\<lparr>ctx_ppos := st_p (top c)\<rparr>);
          c2 = (if is_array then c1\<lparr>ctx_ipos := (ctx_ipos c1 + 255) mod 256\<rparr> else c1)
      in lecp_check_path_match c2)"

definition opc_array :: "'u lecp \<Rightarrow> byte \<Rightarrow> 'u flow" where
  "opc_array h sm =
     (let h0 = upd buf_reset h in
      if ctx_ppos (ctx h0) + 3 \<ge> length (ctx_path (ctx h0)) then reject_overflow h0
      else
        let h1 = upd array_path h0 in
        if ctx_ipos (ctx h1) + 1 \<ge> length (ctx_i (ctx h1)) then reject_overflow h1
        else
          (case call_cb LECPCB_ARRAY_START
                  (upd (\<lambda>c. c\<lparr>ctx_i := (ctx_i c)[ctx_ipos c := 0],
                                ctx_ipos := (ctx_ipos c + 1) mod 256\<rparr>) h1) of
             (rej, h2) \<Rightarrow>
               if rej then reject_callback h2
               else if sm = 0 then
                 (case call_cb LECPCB_ARRAY_END h2 of
                    (rej2, h3) \<Rightarrow>
                      if rej2 then reject_callback h3
                      else Next (snd (lwcp_completed
                                        (upd (empty_container_path True) h3) False)))
               else if sm < LWS_CBOR_1 then
                 push_a (upd (set_top (\<lambda>f. f\<lparr>st_indet := False,
                                               st_collect_rem := ucast sm\<rparr>)) h2)
               else if sm < LWS_CBOR_RESERVED then i2 h2 sm
               else if sm \<noteq> LWS_CBOR_INDETERMINITE then bad_coding h2
               else push_a (upd (set_top (\<lambda>f. f\<lparr>st_indet := True\<rparr>)) h2)))"

text \<open>The case \<^verbatim>\<open>LWS_CBOR_MAJTYP_MAP\<close>.\<close>

definition map_path :: "lecp_ctx \<Rightarrow> lecp_ctx" where
  "map_path c =
     (let c1 = set_top (\<lambda>f. f\<lparr>st_p := ctx_ppos c\<rparr>) c;
          c2 = (path_store (ctx_ppos c1) 0x2E c1)\<lparr>ctx_ppos := (ctx_ppos c1 + 1) mod 256\<rparr>
      in lecp_check_path_match (path_store (ctx_ppos c2) 0 c2))"

definition opc_map :: "'u lecp \<Rightarrow> byte \<Rightarrow> 'u flow" where
  "opc_map h sm =
     (let h0 = upd buf_reset h in
      if ctx_ppos (ctx h0) + 1 \<ge> length (ctx_path (ctx h0)) then reject_overflow h0
      else
        (case call_cb LECPCB_OBJECT_START (upd map_path h0) of
           (rej, h2) \<Rightarrow>
             if rej then reject_callback h2
             else if sm = 0 then
               (case call_cb LECPCB_OBJECT_END h2 of
                  (rej2, h3) \<Rightarrow>
                    if rej2 then reject_callback h3
                    else Next (snd (lwcp_completed
                                      (upd (empty_container_path False) h3) False)))
             else if sm < LWS_CBOR_1 then
               push_m (upd (set_top (\<lambda>f. f\<lparr>st_indet := False,
                                             st_collect_rem := ucast sm * 2\<rparr>)) h2)
             else if sm < LWS_CBOR_RESERVED then i2 h2 sm
             else if sm \<noteq> LWS_CBOR_INDETERMINITE then bad_coding h2
             else push_m (upd (set_top (\<lambda>f. f\<lparr>st_indet := True\<rparr>)) h2)))"

text \<open>The case \<^verbatim>\<open>LWS_CBOR_MAJTYP_TAG\<close>.\<close>

definition opc_tag :: "'u lecp \<Rightarrow> byte \<Rightarrow> 'u flow" where
  "opc_tag h sm =
     (if sm < LWS_CBOR_1
      then start_tag_enclosure
             (upd (\<lambda>c. (set_top (\<lambda>f. f\<lparr>st_tag := ucast sm\<rparr>) c)\<lparr>ctx_item_u := ucast sm\<rparr>) h)
      else i2 h sm)"

text \<open>The case \<^verbatim>\<open>LWS_CBOR_MAJTYP_FLOAT\<close>, a switch on the minor with a default.\<close>

definition opc_float :: "'u lecp \<Rightarrow> byte \<Rightarrow> 'u flow" where
  "opc_float h sm =
     (if sm = LWS_CBOR_SWK_FALSE then issue (upd (\<lambda>c. c\<lparr>ctx_present := LECPCB_VAL_FALSE\<rparr>) h)
      else if sm = LWS_CBOR_SWK_TRUE then issue (upd (\<lambda>c. c\<lparr>ctx_present := LECPCB_VAL_TRUE\<rparr>) h)
      else if sm = LWS_CBOR_SWK_NULL then issue (upd (\<lambda>c. c\<lparr>ctx_present := LECPCB_VAL_NULL\<rparr>) h)
      else if sm = LWS_CBOR_SWK_UNDEFINED
        then issue (upd (\<lambda>c. c\<lparr>ctx_present := LECPCB_VAL_UNDEFINED\<rparr>) h)
      else if sm = LWS_CBOR_M7_SUBTYP_SIMPLE_X8
        then Next (upd (set_top (\<lambda>f. f\<lparr>st_s := LECP_SIMPLEX8\<rparr>)) h)
      else if sm = LWS_CBOR_M7_SUBTYP_FLOAT16
        then Next (upd (\<lambda>c. ex (c\<lparr>ctx_present := LECPCB_VAL_FLOAT16\<rparr>) 0 2) h)
      else if sm = LWS_CBOR_M7_SUBTYP_FLOAT32
        then Next (upd (\<lambda>c. ex (c\<lparr>ctx_present := LECPCB_VAL_FLOAT32\<rparr>) 0 4) h)
      else if sm = LWS_CBOR_M7_SUBTYP_FLOAT64
        then Next (upd (\<lambda>c. ex (c\<lparr>ctx_present := LECPCB_VAL_FLOAT64\<rparr>) 0 8) h)
      else if sm = LWS_CBOR_M7_BREAK then
        (if ctx_sp (ctx h) = 0 \<or> \<not> st_indet (lwcp_st_parent (ctx h)) then bad_coding h
         else Next (snd (lwcp_completed h True)))
      else
        (case call_cb LECPCB_VAL_SIMPLE (upd (\<lambda>c. c\<lparr>ctx_item_u := ucast sm\<rparr>) h) of
           (rej, h1) \<Rightarrow> if rej then reject_callback h1 else Next h1))"

text \<open>
  The state \<^verbatim>\<open>LECP_OPC\<close>: the major type goes to the frame and to the item, then the
  switch on it. For the integers the immediate value is stored through the \<^verbatim>\<open>i64\<close>
  view of the union.
\<close>

definition opc :: "'u lecp \<Rightarrow> byte \<Rightarrow> 'u flow" where
  "opc h c =
     (let opcode = c AND LWS_CBOR_MAJTYP_MASK;
          sm = c AND LWS_CBOR_SUBMASK;
          h0 = upd (\<lambda>x. (set_top (\<lambda>f. f\<lparr>st_opcode := opcode\<rparr>) x)\<lparr>ctx_item_opcode := opcode\<rparr>) h
      in if opcode = LWS_CBOR_MAJTYP_UINT then
           (let h1 = upd (\<lambda>x. x\<lparr>ctx_present := LECPCB_VAL_NUM_UINT\<rparr>) h0 in
            if sm < LWS_CBOR_1 then issue (upd (\<lambda>x. x\<lparr>ctx_item_u := ucast sm\<rparr>) h1)
            else i2 h1 sm)
         else if opcode = LWS_CBOR_MAJTYP_INT_NEG then
           (let h1 = upd (\<lambda>x. x\<lparr>ctx_present := LECPCB_VAL_NUM_INT\<rparr>) h0 in
            if sm < 24 then issue (upd (\<lambda>x. x\<lparr>ctx_item_u := - 1 - ucast sm\<rparr>) h1)
            else i2 h1 sm)
         else if opcode = LWS_CBOR_MAJTYP_BSTR then opc_string h0 sm True
         else if opcode = LWS_CBOR_MAJTYP_TSTR then opc_string h0 sm False
         else if opcode = LWS_CBOR_MAJTYP_ARRAY then opc_array h0 sm
         else if opcode = LWS_CBOR_MAJTYP_MAP then opc_map h0 sm
         else if opcode = LWS_CBOR_MAJTYP_TAG then opc_tag h0 sm
         else if opcode = LWS_CBOR_MAJTYP_FLOAT then opc_float h0 sm
         else Next h0)"

subsection \<open>\<^verbatim>\<open>lecp_parse\<close>: the states \<^verbatim>\<open>LECP_COLLECT\<close> and \<^verbatim>\<open>LECP_SIMPLEX8\<close>\<close>

text \<open>
  \<^verbatim>\<open>*ctx->collect_tgt++ = c\<close> on a big-endian host, \<^verbatim>\<open>*ctx->collect_tgt-- = c\<close> on a
  little-endian one. The target stays inside the eight bytes of the union in every
  collection that \<open>ex\<close> has set up; outside them the store is undefined behaviour.
\<close>

definition collect_store :: "byte \<Rightarrow> lecp_ctx \<Rightarrow> lecp_ctx" where
  "collect_store v c =
     (let k = ctx_collect_tgt c;
          c1 = (if 0 \<le> k \<and> k < 8
                then c\<lparr>ctx_item_u := union_store (ctx_be c) (nat k) v (ctx_item_u c)\<rparr>
                else c\<lparr>ctx_ub := True\<rparr>)
      in c1\<lparr>ctx_collect_tgt := (if ctx_be c then k + 1 else k - 1)\<rparr>)"

text \<open>What follows the last byte of a collection: the switch on the frame's opcode.\<close>

definition collected :: "'u lecp \<Rightarrow> 'u flow" where
  "collected h =
     (let h0 = upd buf_reset h;
          opcode = st_opcode (top (ctx h0));
          u = ctx_item_u (ctx h0)
      in if opcode = LWS_CBOR_MAJTYP_BSTR \<or> opcode = LWS_CBOR_MAJTYP_TSTR then
           Next (upd (set_top (\<lambda>f. f\<lparr>st_collect_rem := u, st_s := LECP_COLLATE\<rparr>)) h0)
         else if opcode = LWS_CBOR_MAJTYP_ARRAY then
           Next (snd (lecp_push (upd (set_top (\<lambda>f. f\<lparr>st_collect_rem := u\<rparr>)) h0)
                        None (Some LECPCB_ARRAY_END) LECP_OPC))
         else if opcode = LWS_CBOR_MAJTYP_MAP then
           Next (snd (lecp_push (upd (set_top (\<lambda>f. f\<lparr>st_collect_rem := u * 2\<rparr>)) h0)
                        None (Some LECPCB_OBJECT_END) LECP_OPC))
         else if opcode = LWS_CBOR_MAJTYP_TAG then
           start_tag_enclosure (upd (set_top (\<lambda>f. f\<lparr>st_tag := u\<rparr>)) h0)
         else if opcode = LWS_CBOR_MAJTYP_INT_NEG then
           issue (upd (\<lambda>c. c\<lparr>ctx_item_u := - 1 - u\<rparr>) h0)
         else issue h0)"

definition collect :: "'u lecp \<Rightarrow> byte \<Rightarrow> 'u flow" where
  "collect h c =
     (let h1 = upd (\<lambda>x. set_top (\<lambda>f. f\<lparr>st_collect_rem := st_collect_rem f - 1\<rparr>)
                          (collect_store c x)) h
      in if st_collect_rem (top (ctx h1)) \<noteq> 0 then Next h1 else collected h1)"

definition simplex8 :: "'u lecp \<Rightarrow> byte \<Rightarrow> 'u flow" where
  "simplex8 h c =
     (if c \<le> LWS_CBOR_INDETERMINITE then bad_coding h
      else
        (case call_cb LECPCB_VAL_SIMPLE (upd (\<lambda>x. x\<lparr>ctx_item_u := ucast c\<rparr>) h) of
           (rej, h1) \<Rightarrow>
             if rej then reject_callback h1 else Next (snd (lwcp_completed h1 False))))"

subsection \<open>\<^verbatim>\<open>lecp_parse\<close>: the state \<^verbatim>\<open>LECP_COLLATE\<close>\<close>

text \<open>A store \<^verbatim>\<open>ctx->buf[k] = v\<close>.\<close>

definition buf_store :: "nat \<Rightarrow> byte \<Rightarrow> lecp_ctx \<Rightarrow> lecp_ctx" where
  "buf_store k v c =
     (if k < length (ctx_buf c) then c\<lparr>ctx_buf := (ctx_buf c)[k := v]\<rparr>
      else c\<lparr>ctx_ub := True\<rparr>)"

text \<open>
  \<^verbatim>\<open>memcpy(&ctx->path[pst->ppos], ctx->buf, (size_t)(ctx->npos + 1))\<close>: the bytes
  \<open>0 .. npos\<close> of the buffer, the NUL at \<open>npos\<close> included, go to the path from
  \<open>ppos\<close> on.
\<close>

definition memcpy_path :: "lecp_ctx \<Rightarrow> lecp_ctx" where
  "memcpy_path c =
     foldl (\<lambda>x k. path_store (ctx_ppos c + k) (ctx_buf c ! k) x) c [0 ..< ctx_npos c + 1]"

text \<open>
  The end of a spill: the CHUNK or END event (\<open>more\<close> is the \<^verbatim>\<open>c\<close> that the source
  reuses as a flag), the parent's \<open>intermediate\<close> flag, and after an END the walk
  up the stack.
\<close>

definition collate_issue :: "'u lecp \<Rightarrow> 'u flow" where
  "collate_issue h =
     (let c = ctx h;
          to = (ctx_item_opcode c = LWS_CBOR_MAJTYP_BSTR);
          more = (st_collect_rem (top c) \<noteq> 0 \<or> lwcp_is_indet_string c);
          c1 = (if ctx_sp c \<noteq> 0 then set_parent (\<lambda>f. f\<lparr>st_intermediate := more\<rparr>) c else c)
      in case call_cb (if more then str_chunk to else str_end to) (h\<lparr>ctx := c1\<rparr>) of
           (rej, h1) \<Rightarrow>
             if rej then reject_callback h1
             else
               let h2 = upd (\<lambda>x. set_top (\<lambda>f. f\<lparr>st_s := LECP_OPC\<rparr>) (buf_reset x)) h1
               in if \<not> more then Next (snd (lwcp_completed h2 False)) else Next h2)"

text \<open>
  The path part of a spill, for a map name (the parent is a map and its ordinal is
  even): the previous name is erased by going back to the cursor saved in the frame,
  the cursor is saved, and the name is appended if
  \<^verbatim>\<open>pst->ppos + ctx->npos > sizeof(ctx->path)\<close> does not hold.
\<close>

definition collate_spill :: "'u lecp \<Rightarrow> 'u flow" where
  "collate_spill h =
     (let c = buf_store (ctx_npos (ctx h)) 0 (ctx h) in
      if ctx_sp c \<noteq> 0 \<and> st_opcode (lwcp_st_parent c) = LWS_CBOR_MAJTYP_MAP \<and>
         st_ordinal (lwcp_st_parent c) AND 1 = 0
      then
        (let c1 = (if st_ordinal (lwcp_st_parent c) \<noteq> 0 then c\<lparr>ctx_ppos := st_p (top c)\<rparr> else c);
             c2 = set_top (\<lambda>f. f\<lparr>st_p := ctx_ppos c1\<rparr>) c1
         in if ctx_ppos c2 + ctx_npos c2 > length (ctx_path c2) then reject_overflow (h\<lparr>ctx := c2\<rparr>)
            else collate_issue
                   (h\<lparr>ctx := lecp_check_path_match
                        ((memcpy_path c2)\<lparr>ctx_ppos := (ctx_ppos c2 + ctx_npos c2) mod 256\<rparr>)\<rparr>))
      else collate_issue (h\<lparr>ctx := c\<rparr>))"

definition collate :: "'u lecp \<Rightarrow> byte \<Rightarrow> 'u flow" where
  "collate h c =
     (let x = ctx h;
          x1 = (buf_store (ctx_npos x) c x)\<lparr>ctx_npos := (ctx_npos x + 1) mod 256\<rparr>;
          x2 = (if st_collect_rem (top x1) \<noteq> 0
                then set_top (\<lambda>f. f\<lparr>st_collect_rem := st_collect_rem f - 1\<rparr>) x1 else x1)
      in if ctx_npos x2 \<noteq> length (ctx_buf x2) - 1 \<and> st_collect_rem (top x2) \<noteq> 0
         then Next (h\<lparr>ctx := x2\<rparr>)
         else collate_spill (h\<lparr>ctx := x2\<rparr>))"

subsection \<open>\<^verbatim>\<open>lecp_parse\<close>: the state \<^verbatim>\<open>LECP_ONLY_SAME\<close>\<close>

text \<open>
  With an empty stack the source asserts and returns \<^verbatim>\<open>LECP_STACK_OVERFLOW\<close> directly.
  The test of the major type compares the opcode of the frame with the opcode of its
  parent; the byte \<open>c\<close> is only looked at for the break and for its minor.
\<close>

definition only_same :: "'u lecp \<Rightarrow> byte \<Rightarrow> 'u flow" where
  "only_same h c =
     (if ctx_sp (ctx h) = 0 then Return LECP_STACK_OVERFLOW (upd (\<lambda>x. x\<lparr>ctx_ub := True\<rparr>) h)
      else if c = (LWS_CBOR_MAJTYP_FLOAT OR LWS_CBOR_M7_BREAK) then
        (if ctx_sp (ctx h) = 0 \<or> \<not> st_indet (lwcp_st_parent (ctx h)) then bad_coding h
         else
           (case lwcp_completed h True of
              (r, h1) \<Rightarrow> if r \<noteq> 0 then reject_callback h1 else Next h1))
      else if st_opcode (top (ctx h)) \<noteq> st_opcode (lwcp_st_parent (ctx h)) then bad_coding h
      else
        (let sm = c AND LWS_CBOR_SUBMASK in
         if sm = LWS_CBOR_INDETERMINITE then bad_coding h
         else if sm < LWS_CBOR_1 then
           Next (upd (set_top (\<lambda>f. f\<lparr>st_indet := False, st_collect_rem := ucast sm,
                                     st_s := LECP_COLLATE\<rparr>)) h)
         else if sm \<ge> LWS_CBOR_RESERVED then bad_coding h
         else i2 h sm))"

subsection \<open>\<^verbatim>\<open>lecp_parse\<close>: the loop\<close>

text \<open>
  One round of the loop, for the byte \<open>c\<close>. The state of a frame is one of the five
  of \<^verbatim>\<open>enum lecp_states\<close>, so the \<^verbatim>\<open>default\<close> of the switch has no counterpart.
\<close>

definition lecp_parse_byte :: "'u lecp \<Rightarrow> byte \<Rightarrow> 'u flow" where
  "lecp_parse_byte h c =
     (case st_s (top (ctx h)) of
        LECP_OPC \<Rightarrow> opc h c
      | LECP_COLLECT \<Rightarrow> collect h c
      | LECP_SIMPLEX8 \<Rightarrow> simplex8 h c
      | LECP_COLLATE \<Rightarrow> collate h c
      | LECP_ONLY_SAME \<Rightarrow> only_same h c)"

text \<open>
  \<^verbatim>\<open>lecp_parse(ctx, cbor, len)\<close>, the operation the specification calls feed: the
  bytes in order; at the end of the chunk 0 if the stack is empty and the frame at
  the bottom expects a head byte, \<^verbatim>\<open>LECP_CONTINUE\<close> otherwise.
\<close>

fun lecp_parse :: "'u lecp \<Rightarrow> byte list \<Rightarrow> int \<times> 'u lecp" where
  "lecp_parse h [] =
     (if ctx_sp (ctx h) = 0 \<and> st_s (ctx_st (ctx h) ! 0) = LECP_OPC then 0 else LECP_CONTINUE, h)"
| "lecp_parse h (c # cs) =
     (case lecp_parse_byte h c of
        Next h' \<Rightarrow> lecp_parse h' cs
      | Return r h' \<Rightarrow> (r, h'))"

subsection \<open>\<^verbatim>\<open>lecp_construct\<close>, \<^verbatim>\<open>lecp_destruct\<close>, \<^verbatim>\<open>lecp_change_callback\<close>\<close>

definition zero_frame :: lecp_stack where
  "zero_frame = \<lparr>st_s = LECP_OPC, st_p = 0, st_indet = False, st_intermediate = False,
                 st_pop_iss = None, st_tag = 0, st_collect_rem = 0, st_ordinal = 0,
                 st_opcode = 0\<rparr>"

text \<open>
  \<^verbatim>\<open>lecp_construct\<close>. \<open>mem\<close> is the memory the caller provides: its arrays give the
  capacities, and its string buffer is the one part that \<^verbatim>\<open>memset\<close> leaves as it
  was. \<open>host_be\<close> says whether the host stores the high byte of \<^verbatim>\<open>x = 0x1234\<close> first.
  The reason zero, to which \<^verbatim>\<open>present\<close> is cleared, is taken to be
  \<open>LECPCB_CONSTRUCTED\<close>; the field is set before each use. The result of the
  callback is dropped.
\<close>

definition lecp_construct ::
  "lecp_ctx \<Rightarrow> bool \<Rightarrow> 'u lecp_callback \<Rightarrow> 'u \<Rightarrow> byte list list \<Rightarrow> nat \<Rightarrow> 'u lecp" where
  "lecp_construct mem host_be cb0 user0 paths count_paths =
     snd (call_cb LECPCB_CONSTRUCTED
       \<lparr>ctx = \<lparr>ctx_st = replicate (length (ctx_st mem)) zero_frame,
                ctx_i = replicate (length (ctx_i mem)) 0,
                ctx_wild = replicate (length (ctx_wild mem)) 0,
                ctx_path = replicate (length (ctx_path mem)) 0,
                ctx_buf = ctx_buf mem,
                ctx_item_opcode = 0, ctx_item_u = 0, ctx_collect_tgt = 0,
                ctx_present = LECPCB_CONSTRUCTED, ctx_be = host_be,
                ctx_npos = 0, ctx_sp = 0, ctx_ipos = 0,
                ctx_path_match = 0, ctx_path_match_len = 0, ctx_wildcount = 0,
                ctx_ppos = 0, ctx_paths = paths, ctx_count_paths = count_paths mod 256,
                ctx_ub = False\<rparr>,
         cb = cb0, user = user0, evs = []\<rparr>)"

text \<open>
  \<^verbatim>\<open>lecp_destruct\<close> calls the callback if the pointer is not null; a callback is always
  present in the model.
\<close>

definition lecp_destruct :: "'u lecp \<Rightarrow> 'u lecp" where
  "lecp_destruct h = snd (call_cb LECPCB_DESTRUCTED h)"

definition lecp_change_callback :: "'u lecp \<Rightarrow> 'u lecp_callback \<Rightarrow> 'u lecp" where
  "lecp_change_callback h cb' =
     snd (call_cb LECPCB_CONSTRUCTED ((snd (call_cb LECPCB_DESTRUCTED h))\<lparr>cb := cb'\<rparr>))"

text \<open>Memory of given capacities for a context, all zero.\<close>

definition lecp_mem :: "nat \<Rightarrow> nat \<Rightarrow> nat \<Rightarrow> nat \<Rightarrow> lecp_ctx" where
  "lecp_mem max_depth max_index_depth max_path string_chunk =
     \<lparr>ctx_st = replicate max_depth zero_frame,
      ctx_i = replicate max_index_depth 0,
      ctx_wild = replicate max_index_depth 0,
      ctx_path = replicate max_path 0,
      ctx_buf = replicate (string_chunk + 1) 0,
      ctx_item_opcode = 0, ctx_item_u = 0, ctx_collect_tgt = 0,
      ctx_present = LECPCB_CONSTRUCTED, ctx_be = False,
      ctx_npos = 0, ctx_sp = 0, ctx_ipos = 0,
      ctx_path_match = 0, ctx_path_match_len = 0, ctx_wildcount = 0,
      ctx_ppos = 0, ctx_paths = [], ctx_count_paths = 0, ctx_ub = False\<rparr>"

subsection \<open>Observations and example contexts\<close>

text \<open>The events that one call of \<^verbatim>\<open>lecp_parse\<close> delivers: what it adds to the log.\<close>

definition feed_events :: "'u lecp \<Rightarrow> byte list \<Rightarrow> (lecp_callbacks \<times> lecp_ctx) list" where
  "feed_events h bs = drop (length (evs h)) (evs (snd (lecp_parse h bs)))"

text \<open>
  Callbacks without a state of their own: one that accepts every event, one that
  refuses every event, one that refuses a single reason.
\<close>

definition accept_all :: "unit lecp_callback" where
  "accept_all c e u = (0, u)"

definition reject_all :: "unit lecp_callback" where
  "reject_all c e u = (1, u)"

definition reject_on :: "lecp_callbacks \<Rightarrow> unit lecp_callback" where
  "reject_on r c e u = (if e = r then 1 else 0, u)"

text \<open>
  A freshly constructed context on a little-endian host, for the examples: 12 frames,
  8 array indexes and wildcards, a path of 128 bytes and a string buffer of 255.
\<close>

definition fresh_ctx :: "unit lecp_callback \<Rightarrow> byte list list \<Rightarrow> unit lecp" where
  "fresh_ctx f paths = lecp_construct (lecp_mem 12 8 128 254) False f () paths (length paths)"

text \<open>
  A caller that feeds an input in consecutive chunks, \<open>c\<close> first and then those of
  \<open>ds\<close>, to the same context. \<open>feed_chunks\<close> stops at the first error code (a
  result below \<open>LECP_CONTINUE\<close>), after which the context must not be fed again;
  \<open>feed_each\<close> feeds every chunk whatever the results. Both return the result of the
  last call they made.
\<close>

fun feed_chunks :: "'u lecp \<Rightarrow> byte list \<Rightarrow> byte list list \<Rightarrow> int \<times> 'u lecp" where
  "feed_chunks h c [] = lecp_parse h c"
| "feed_chunks h c (d # ds) =
     (case lecp_parse h c of
        (r, h') \<Rightarrow> if r < LECP_CONTINUE then (r, h') else feed_chunks h' d ds)"

fun feed_each :: "'u lecp \<Rightarrow> byte list \<Rightarrow> byte list list \<Rightarrow> int \<times> 'u lecp" where
  "feed_each h c [] = lecp_parse h c"
| "feed_each h c (d # ds) = feed_each (snd (lecp_parse h c)) d ds"

text \<open>A round of the loop that returns, returns an error code.\<close>

definition flow_ok :: "'u flow \<Rightarrow> bool" where
  "flow_ok fl = (case fl of Next h \<Rightarrow> True | Return r h \<Rightarrow> r < LECP_CONTINUE)"

text \<open>What a round of the loop leaves: the parser, and the code if it returned.\<close>

definition flow_handle :: "'u flow \<Rightarrow> 'u lecp" where
  "flow_handle fl = (case fl of Next h \<Rightarrow> h | Return r h \<Rightarrow> h)"

definition flow_code :: "'u flow \<Rightarrow> int option" where
  "flow_code fl = (case fl of Next h \<Rightarrow> None | Return r h \<Rightarrow> Some r)"

text \<open>
  A recorded match: the match index is not 0, and the match index, the recorded
  length, the wildcard count and the wildcard array are the ones of \<open>m\<close>.
\<close>

type_synonym match_state = "nat \<times> nat \<times> nat \<times> 16 word list"

definition match_held :: "match_state \<Rightarrow> lecp_ctx \<Rightarrow> bool" where
  "match_held m c =
     (ctx_path_match c \<noteq> 0 \<and>
      (ctx_path_match c, ctx_path_match_len c, ctx_wildcount c, ctx_wild c) = m)"

text \<open>
  The map \<open>{"a": 1, "b": [0]}\<close> fed to a fresh context with the single pattern
  \<open>.a\<close>: the ninth event is the \<open>LECPCB_ARRAY_END\<close> of the pop that closes the array.
\<close>

definition pop_event_example :: "lecp_callbacks \<times> lecp_ctx" where
  "pop_event_example =
     feed_events (fresh_ctx accept_all [[0x2E, 0x61]])
       [0xA2, 0x61, 0x61, 0x01, 0x61, 0x62, 0x81, 0x00] ! 8"

text \<open>
  The number that a sequence of bytes denotes in network byte order, the first byte
  the most significant.
\<close>

primrec be_nat :: "byte list \<Rightarrow> nat" where
  "be_nat [] = 0"
| "be_nat (b # bs) = unat b * 256 ^ length bs + be_nat bs"

text \<open>
  What the state \<open>LECP_COLLECT\<close> does with the bytes \<open>bs\<close> on a little-endian host:
  the first byte is stored at offset \<open>length bs - 1\<close> of the union, the last at 0;
  the count of the frame and the target go down by \<open>length bs\<close>.
\<close>

primrec stored_le :: "byte list \<Rightarrow> 64 word \<Rightarrow> 64 word" where
  "stored_le [] w = w"
| "stored_le (b # bs) w = stored_le bs (union_store False (length bs) b w)"

definition collected_ctx :: "byte list \<Rightarrow> lecp_ctx \<Rightarrow> lecp_ctx" where
  "collected_ctx bs c =
     set_top (\<lambda>f. f\<lparr>st_collect_rem := st_collect_rem f - of_nat (length bs)\<rparr>)
       (c\<lparr>ctx_item_u := stored_le bs (ctx_item_u c),
          ctx_collect_tgt := ctx_collect_tgt c - int (length bs)\<rparr>)"

text \<open>The log of the parser starts with the events \<open>xs\<close>.\<close>

definition log_from :: "(lecp_callbacks \<times> lecp_ctx) list \<Rightarrow> 'u lecp \<Rightarrow> bool" where
  "log_from xs h = (\<exists>ys. evs h = xs @ ys)"

text \<open>
  The first event that a feed delivers: its reason, and the item it shows to the
  callback, read as \<^verbatim>\<open>u64\<close> and as \<^verbatim>\<open>i64\<close>. The lists are empty if there is no event.
\<close>

definition first_reason :: "'u lecp \<Rightarrow> byte list \<Rightarrow> lecp_callbacks list" where
  "first_reason h bs = map fst (take 1 (feed_events h bs))"

definition first_u64 :: "'u lecp \<Rightarrow> byte list \<Rightarrow> nat list" where
  "first_u64 h bs = map (\<lambda>(e, x). unat (ctx_item_u x)) (take 1 (feed_events h bs))"

definition first_i64 :: "'u lecp \<Rightarrow> byte list \<Rightarrow> int list" where
  "first_i64 h bs = map (\<lambda>(e, x). sint (ctx_item_u x)) (take 1 (feed_events h bs))"

text \<open>A freshly constructed context on a big-endian host.\<close>

definition fresh_ctx_be :: "unit lecp" where
  "fresh_ctx_be = lecp_construct (lecp_mem 12 8 128 254) True accept_all () [] 0"

subsection \<open>Matching a path against patterns, on strings\<close>

text \<open>
  The C string that a buffer holds: its bytes before the first NUL; \<open>holds buf s\<close>
  says it pointwise, in the terms \<open>cstr_at\<close> reads a buffer.
\<close>

definition cstr :: "byte list \<Rightarrow> byte list" where
  "cstr xs = takeWhile (\<lambda>x. x \<noteq> 0) xs"

definition holds :: "byte list \<Rightarrow> byte list \<Rightarrow> bool" where
  "holds buf s = ((\<forall>i < length s. cstr_at buf i = s ! i \<and> s ! i \<noteq> 0) \<and> cstr_at buf (length s) = 0)"

text \<open>
  The scan of one pattern in the words of the specification, for the comparison with
  \<^verbatim>\<open>lecp_check_path_match\<close>: a literal character matches itself; a \<open>*\<close> consumes the
  path characters up to but not including the next \<open>.\<close>, or all of them when it ends
  the pattern, and the offset \<open>k\<close> where it began is recorded; the pattern matches when
  both strings are consumed together. The result is whether the pattern matches, and
  the recorded offsets.
\<close>

fun spec_glob_scan :: "byte list \<Rightarrow> byte list \<Rightarrow> nat \<Rightarrow> bool \<times> nat list" where
  "spec_glob_scan cs [] k = (cs = [], [])"
| "spec_glob_scan cs (d # ds) k =
     (if d = 0x2A then
        (let run = (if ds = [] then cs else takeWhile (\<lambda>x. x \<noteq> 0x2E) cs);
             r = spec_glob_scan (drop (length run) cs) ds (k + length run)
         in (fst r, k # snd r))
      else (case cs of
              [] \<Rightarrow> (False, [])
            | c # cs' \<Rightarrow> if c = d then spec_glob_scan cs' ds (k + 1) else (False, [])))"

text \<open>
  The same scan with the guard of the loop \<^verbatim>\<open>while (*p && *q)\<close>: a \<open>*\<close> is taken only
  while path characters remain, so a pattern that still has a \<open>*\<close> when the path is
  consumed does not match.
\<close>

fun glob_scan :: "byte list \<Rightarrow> byte list \<Rightarrow> nat \<Rightarrow> bool \<times> nat list" where
  "glob_scan [] [] k = (True, [])"
| "glob_scan (c # cs) (d # ds) k =
     (if d = 0x2A then
        (let run = (if ds = [] then c # cs else takeWhile (\<lambda>x. x \<noteq> 0x2E) (c # cs));
             r = glob_scan (drop (length run) (c # cs)) ds (k + length run)
         in (fst r, k # snd r))
      else if c = d then glob_scan cs ds (k + 1)
      else (False, []))"
| "glob_scan [] (d # ds) k = (False, [])"
| "glob_scan (c # cs) [] k = (False, [])"

text \<open>
  The first pattern that a scan matches, counted from \<open>n + 1\<close>, with the offsets its
  stars recorded; 0 and no offsets when no pattern matches.
\<close>

fun first_match ::
  "(byte list \<Rightarrow> byte list \<Rightarrow> nat \<Rightarrow> bool \<times> nat list) \<Rightarrow> byte list \<Rightarrow> byte list list \<Rightarrow> nat \<Rightarrow>
   nat \<times> nat list" where
  "first_match scan path [] n = (0, [])"
| "first_match scan path (pat # pats) n =
     (if fst (scan path pat 0) then (n + 1, snd (scan path pat 0))
      else first_match scan path pats (n + 1))"

definition path_match_of ::
  "(byte list \<Rightarrow> byte list \<Rightarrow> nat \<Rightarrow> bool \<times> nat list) \<Rightarrow> lecp_ctx \<Rightarrow> nat \<times> nat list" where
  "path_match_of scan c = first_match scan (cstr (ctx_path c)) (map cstr (ctx_paths c)) 0"

text \<open>
  Example contexts: a fresh parser with the patterns \<open>.b\<close> and \<open>.*.*\<close> whose path is
  \<open>.a.b\<close>; and the context shown with the value 1 of the map \<open>{"a": 1}\<close>, \<open>a1 61 61 01\<close>,
  to a parser with the pattern \<open>.a*\<close>.
\<close>

definition match_example :: lecp_ctx where
  "match_example =
     (ctx (fresh_ctx accept_all [[0x2E, 0x62], [0x2E, 0x2A, 0x2E, 0x2A]]))
       \<lparr>ctx_path := [0x2E, 0x61, 0x2E, 0x62] @ replicate 124 0, ctx_ppos := 4\<rparr>"

definition final_star_example :: "lecp_callbacks \<times> lecp_ctx" where
  "final_star_example =
     feed_events (fresh_ctx accept_all [[0x2E, 0x61, 0x2A]]) [0xA1, 0x61, 0x61, 0x01] ! 3"



section \<open>Properties\<close>

subsection \<open>Helper facts\<close>

lemma completed_loop_empty:
  "ctx_sp (ctx h) = 0 \<Longrightarrow> lwcp_completed_loop h indet il = (0, h)"
  by (subst lwcp_completed_loop.simps) simp

lemma fresh_ctx_cb: "cb (fresh_ctx f ps) = f"
  by (simp add: fresh_ctx_def lecp_construct_def call_cb_def split: prod.splits)

lemma flow_ok_simps: "flow_ok (Next h)" "flow_ok (Return r h) = (r < - 1)"
  by (simp_all add: flow_ok_def)

lemma flow_ok_reject:
  "flow_ok (reject_overflow h)" "flow_ok (bad_coding h)" "flow_ok (reject_callback h)"
  by (simp_all add: reject_overflow_def bad_coding_def reject_callback_def reject_def
      flow_ok_simps)

lemma lecp_push_code: "fst (lecp_push h a b s) = 0 \<or> fst (lecp_push h a b s) < - 1"
  by (simp add: lecp_push_def split: prod.splits option.splits)

lemma flow_ok_start_tag: "flow_ok (start_tag_enclosure h)"
  using lecp_push_code [of "upd (\<lambda>c. set_top (\<lambda>f. f\<lparr>st_p := ctx_ppos c\<rparr>) c) h"
      "Some LECPCB_TAG_START" "Some LECPCB_TAG_END" LECP_OPC]
  by (auto simp: start_tag_enclosure_def flow_ok_simps split: prod.splits)

lemma flow_ok_issue: "flow_ok (issue h)"
  by (simp add: issue_def flow_ok_simps flow_ok_reject flow_ok_start_tag split: prod.splits)

lemma flow_ok_i2: "flow_ok (i2 h sm)"
  by (simp add: i2_def flow_ok_simps flow_ok_reject)

lemma flow_ok_push: "flow_ok (push_a h)" "flow_ok (push_m h)"
  by (simp_all add: push_a_def push_m_def flow_ok_simps)

lemmas flow_ok_labels =
  flow_ok_simps flow_ok_reject flow_ok_start_tag flow_ok_issue flow_ok_i2 flow_ok_push

lemma flow_ok_opc_string: "flow_ok (opc_string h sm to)"
  by (simp add: opc_string_def Let_def flow_ok_labels split: prod.splits)

lemma flow_ok_opc_array: "flow_ok (opc_array h sm)"
  by (simp add: opc_array_def Let_def flow_ok_labels split: prod.splits)

lemma flow_ok_opc_map: "flow_ok (opc_map h sm)"
  by (simp add: opc_map_def Let_def flow_ok_labels split: prod.splits)

lemma flow_ok_opc_tag: "flow_ok (opc_tag h sm)"
  by (simp add: opc_tag_def flow_ok_labels)

lemma flow_ok_opc_float: "flow_ok (opc_float h sm)"
  by (simp add: opc_float_def flow_ok_labels split: prod.splits)

lemma flow_ok_opc: "flow_ok (opc h c)"
  by (simp add: opc_def Let_def flow_ok_labels flow_ok_opc_string flow_ok_opc_array
      flow_ok_opc_map flow_ok_opc_tag flow_ok_opc_float)

lemma flow_ok_collected: "flow_ok (collected h)"
  by (simp add: collected_def Let_def flow_ok_labels)

lemma flow_ok_collect: "flow_ok (collect h c)"
  by (simp add: collect_def Let_def flow_ok_labels flow_ok_collected)

lemma flow_ok_simplex8: "flow_ok (simplex8 h c)"
  by (simp add: simplex8_def flow_ok_labels split: prod.splits)

lemma flow_ok_collate_issue: "flow_ok (collate_issue h)"
  by (simp add: collate_issue_def Let_def flow_ok_labels split: prod.splits)

lemma flow_ok_collate_spill: "flow_ok (collate_spill h)"
  by (simp add: collate_spill_def Let_def flow_ok_labels flow_ok_collate_issue)

lemma flow_ok_collate: "flow_ok (collate h c)"
  by (simp add: collate_def Let_def flow_ok_labels flow_ok_collate_spill)

lemma flow_ok_only_same: "flow_ok (only_same h c)"
  by (simp add: only_same_def Let_def flow_ok_labels split: prod.splits)

lemma flow_ok_parse_byte: "flow_ok (lecp_parse_byte h c)"
  by (simp add: lecp_parse_byte_def flow_ok_opc flow_ok_collect flow_ok_simplex8
      flow_ok_collate flow_ok_only_same split: lecp_states.splits)

text \<open>
  Feeding \<open>xs @ ys\<close> in one call is feeding \<open>xs\<close> and, unless that ends in an error,
  \<open>ys\<close> to the context it leaves.
\<close>

lemma lecp_parse_append:
  "lecp_parse h (xs @ ys) =
     (case lecp_parse h xs of
        (r, h') \<Rightarrow> if r < LECP_CONTINUE then (r, h') else lecp_parse h' ys)"
proof (induction xs arbitrary: h)
  case Nil
  show ?case by simp
next
  case (Cons c cs)
  show ?case
  proof (cases "lecp_parse_byte h c")
    case (Next h1)
    then show ?thesis using Cons.IH [of h1] by simp
  next
    case (Return r h1)
    with flow_ok_parse_byte [of h c] have "r < - 1" by (simp add: flow_ok_simps)
    with Return show ?thesis by simp
  qed
qed

lemma feed_chunks_whole: "feed_chunks h c ds = lecp_parse h (c @ concat ds)"
proof (induction ds arbitrary: h c)
  case Nil
  show ?case by simp
next
  case (Cons d ds)
  show ?case
    by (simp add: lecp_parse_append [of h c] Cons.IH split: prod.splits)
qed

lemma feed_each_whole:
  "\<not> fst (lecp_parse h (c @ concat ds)) < LECP_CONTINUE \<Longrightarrow>
   feed_each h c ds = lecp_parse h (c @ concat ds)"
proof (induction ds arbitrary: h c)
  case Nil
  show ?case by simp
next
  case (Cons d ds)
  obtain r h1 where p: "lecp_parse h c = (r, h1)" by (cases "lecp_parse h c")
  have whole: "lecp_parse h (c @ concat (d # ds)) =
                 (if r < - 1 then (r, h1) else lecp_parse h1 (d @ concat ds))"
    by (simp add: lecp_parse_append [of h c] p)
  with Cons.prems have ok: "\<not> r < - 1" by (auto split: if_splits)
  with whole Cons.prems have "\<not> fst (lecp_parse h1 (d @ concat ds)) < - 1" by simp
  from Cons.IH [OF this] whole ok p show ?case by simp
qed

text \<open>A recorded match is kept by every step of the parser.\<close>

lemma flow_handle_simps [simp]: "flow_handle (Next h) = h" "flow_handle (Return r h) = h"
  by (simp_all add: flow_handle_def)

lemma check_active_id: "ctx_path_match c \<noteq> 0 \<Longrightarrow> lecp_check_path_match c = c"
  by (simp add: lecp_check_path_match_def)

lemma snd_call_cb_ctx [simp]: "ctx (snd (call_cb e h)) = ctx h"
  by (simp add: call_cb_def split: prod.splits)

lemma held_check [simp]: "match_held m c \<Longrightarrow> match_held m (lecp_check_path_match c)"
  by (simp add: match_held_def check_active_id)

lemma held_path_store [simp]: "match_held m (path_store k v c) = match_held m c"
  by (simp add: match_held_def path_store_def)

lemma held_buf_store [simp]: "match_held m (buf_store k v c) = match_held m c"
  by (simp add: match_held_def buf_store_def)

lemma held_buf_reset [simp]: "match_held m (buf_reset c) = match_held m c"
  by (simp add: match_held_def buf_reset_def)

lemma held_set_top [simp]: "match_held m (set_top f c) = match_held m c"
  by (simp add: match_held_def set_top_def)

lemma held_set_parent [simp]: "match_held m (set_parent f c) = match_held m c"
  by (simp add: match_held_def set_parent_def)

lemma held_i_incr [simp]: "match_held m (i_incr il c) = match_held m c"
  by (simp add: match_held_def i_incr_def)

lemma held_ex [simp]: "match_held m (ex c start len) = match_held m c"
  by (simp add: match_held_def ex_def set_top_def)

lemma held_collect_store [simp]: "match_held m (collect_store v c) = match_held m c"
  by (simp add: match_held_def collect_store_def Let_def)

lemma held_upds [simp]:
  "match_held m (c\<lparr>ctx_ppos := a\<rparr>) = match_held m c"
  "match_held m (c\<lparr>ctx_ipos := b\<rparr>) = match_held m c"
  "match_held m (c\<lparr>ctx_item_u := d\<rparr>) = match_held m c"
  "match_held m (c\<lparr>ctx_item_opcode := e\<rparr>) = match_held m c"
  "match_held m (c\<lparr>ctx_present := f\<rparr>) = match_held m c"
  "match_held m (c\<lparr>ctx_ub := g\<rparr>) = match_held m c"
  "match_held m (c\<lparr>ctx_sp := i\<rparr>) = match_held m c"
  "match_held m (c\<lparr>ctx_i := j\<rparr>) = match_held m c"
  "match_held m (c\<lparr>ctx_npos := k\<rparr>) = match_held m c"
  "match_held m (c\<lparr>ctx_st := l\<rparr>) = match_held m c"
  by (simp_all add: match_held_def)

lemma foldl_held:
  "(\<And>x k. match_held m (g x k) = match_held m x) \<Longrightarrow> match_held m (foldl g c ks) = match_held m c"
  by (induction ks arbitrary: c) simp_all

lemma held_memcpy_path [simp]: "match_held m (memcpy_path c) = match_held m c"
  unfolding memcpy_path_def by (rule foldl_held) simp

lemma held_array_path [simp]: "match_held m c \<Longrightarrow> match_held m (array_path c)"
  by (simp add: array_path_def Let_def)

lemma held_map_path [simp]: "match_held m c \<Longrightarrow> match_held m (map_path c)"
  by (simp add: map_path_def Let_def)

lemma held_empty_container_path [simp]:
  "match_held m c \<Longrightarrow> match_held m (empty_container_path a c)"
  by (simp add: empty_container_path_def Let_def)

lemma held_push [simp]:
  "match_held m (ctx h) \<Longrightarrow> match_held m (ctx (snd (lecp_push h a b s)))"
  by (simp add: lecp_push_def ctx_upd Let_def case_prod_beta split: option.splits)

lemma held_pop [simp]:
  "match_held m (ctx h) \<Longrightarrow> match_held m (ctx (snd (lecp_pop h)))"
  by (simp add: lecp_pop_def ctx_upd Let_def case_prod_beta split: option.splits)

lemma held_completed_loop:
  fixes h :: "'u lecp"
  shows "match_held m (ctx h) \<Longrightarrow> match_held m (ctx (snd (lwcp_completed_loop h indet il)))"
proof (induction "ctx_sp (ctx h)" arbitrary: h indet il rule: less_induct)
  case less
  show ?case
  proof (cases "ctx_sp (ctx h) = 0")
    case True
    with less.prems show ?thesis by (subst lwcp_completed_loop.simps) simp
  next
    case False
    have rec: "match_held m (ctx (snd (lwcp_completed_loop (snd (lecp_pop h')) False il')))"
      if "ctx_sp (ctx h') = ctx_sp (ctx h)" and "match_held m (ctx h')" for h' :: "'u lecp" and il'
    proof -
      have "ctx_sp (ctx (snd (lecp_pop h'))) < ctx_sp (ctx h)"
        using lecp_pop_sp [of "fst (lecp_pop h')" "snd (lecp_pop h')" h'] that(1) False by simp
      from less.hyps [OF this] that(2) show ?thesis by simp
    qed
    show ?thesis
      using False less.prems
      by (subst lwcp_completed_loop.simps)
         (simp add: Let_def case_prod_beta ctx_upd rec set_parent_sp i_incr_sp)
  qed
qed

lemma held_completed [simp]:
  "match_held m (ctx h) \<Longrightarrow> match_held m (ctx (snd (lwcp_completed h indet)))"
  by (simp add: lwcp_completed_def held_completed_loop ctx_upd)

lemma held_reject [simp]:
  "match_held m (ctx (flow_handle (reject r h))) = match_held m (ctx h)"
  "match_held m (ctx (flow_handle (reject_overflow h))) = match_held m (ctx h)"
  "match_held m (ctx (flow_handle (bad_coding h))) = match_held m (ctx h)"
  "match_held m (ctx (flow_handle (reject_callback h))) = match_held m (ctx h)"
  by (simp_all add: reject_def reject_overflow_def bad_coding_def reject_callback_def)

lemma held_start_tag [simp]:
  "match_held m (ctx h) \<Longrightarrow> match_held m (ctx (flow_handle (start_tag_enclosure h)))"
  by (simp add: start_tag_enclosure_def case_prod_beta ctx_upd)

lemma held_issue [simp]:
  "match_held m (ctx h) \<Longrightarrow> match_held m (ctx (flow_handle (issue h)))"
  by (simp add: issue_def case_prod_beta ctx_upd)

lemma held_i2 [simp]:
  "match_held m (ctx h) \<Longrightarrow> match_held m (ctx (flow_handle (i2 h sm)))"
  by (simp add: i2_def ctx_upd)

lemma held_push_am [simp]:
  "match_held m (ctx h) \<Longrightarrow> match_held m (ctx (flow_handle (push_a h)))"
  "match_held m (ctx h) \<Longrightarrow> match_held m (ctx (flow_handle (push_m h)))"
  by (simp_all add: push_a_def push_m_def)

lemma held_opc_string [simp]:
  "match_held m (ctx h) \<Longrightarrow> match_held m (ctx (flow_handle (opc_string h sm to)))"
  by (simp add: opc_string_def Let_def case_prod_beta ctx_upd)

lemma held_opc_array [simp]:
  "match_held m (ctx h) \<Longrightarrow> match_held m (ctx (flow_handle (opc_array h sm)))"
  by (simp add: opc_array_def Let_def case_prod_beta ctx_upd)

lemma held_opc_map [simp]:
  "match_held m (ctx h) \<Longrightarrow> match_held m (ctx (flow_handle (opc_map h sm)))"
  by (simp add: opc_map_def Let_def case_prod_beta ctx_upd)

lemma held_opc_tag [simp]:
  "match_held m (ctx h) \<Longrightarrow> match_held m (ctx (flow_handle (opc_tag h sm)))"
  by (simp add: opc_tag_def ctx_upd)

lemma held_opc_float [simp]:
  "match_held m (ctx h) \<Longrightarrow> match_held m (ctx (flow_handle (opc_float h sm)))"
  by (simp add: opc_float_def case_prod_beta ctx_upd)

lemma held_opc [simp]:
  "match_held m (ctx h) \<Longrightarrow> match_held m (ctx (flow_handle (opc h c)))"
  by (simp add: opc_def Let_def ctx_upd)

lemma held_collected [simp]:
  "match_held m (ctx h) \<Longrightarrow> match_held m (ctx (flow_handle (collected h)))"
  by (simp add: collected_def Let_def ctx_upd)

lemma held_collect [simp]:
  "match_held m (ctx h) \<Longrightarrow> match_held m (ctx (flow_handle (collect h c)))"
  by (simp add: collect_def Let_def ctx_upd)

lemma held_simplex8 [simp]:
  "match_held m (ctx h) \<Longrightarrow> match_held m (ctx (flow_handle (simplex8 h c)))"
  by (simp add: simplex8_def case_prod_beta ctx_upd)

lemma held_collate_issue [simp]:
  "match_held m (ctx h) \<Longrightarrow> match_held m (ctx (flow_handle (collate_issue h)))"
  by (simp add: collate_issue_def Let_def case_prod_beta ctx_upd)

lemma held_collate_spill [simp]:
  "match_held m (ctx h) \<Longrightarrow> match_held m (ctx (flow_handle (collate_spill h)))"
  by (simp add: collate_spill_def Let_def)

lemma held_collate [simp]:
  "match_held m (ctx h) \<Longrightarrow> match_held m (ctx (flow_handle (collate h c)))"
  by (simp add: collate_def Let_def)

lemma held_only_same [simp]:
  "match_held m (ctx h) \<Longrightarrow> match_held m (ctx (flow_handle (only_same h c)))"
  by (simp add: only_same_def Let_def case_prod_beta ctx_upd)

lemma held_parse_byte:
  "match_held m (ctx h) \<Longrightarrow> match_held m (ctx (flow_handle (lecp_parse_byte h c)))"
  by (simp add: lecp_parse_byte_def split: lecp_states.splits)

lemma held_parse:
  "match_held m (ctx h) \<Longrightarrow> match_held m (ctx (snd (lecp_parse h bs)))"
proof (induction bs arbitrary: h)
  case Nil
  then show ?case by simp
next
  case (Cons c cs)
  from held_parse_byte [OF Cons.prems, of c] Cons.IH show ?case
    by (cases "lecp_parse_byte h c") simp_all
qed

text \<open>The reserved minors, function by function.\<close>

lemma flow_code_simps [simp]: "flow_code (Next h) = None" "flow_code (Return r h) = Some r"
  by (simp_all add: flow_code_def)


lemma call_cb_facts [simp]:
  "evs (snd (call_cb e h)) = evs h @ [(e, ctx h)]"
  "cb (snd (call_cb e h)) = cb h"
  "fst (call_cb e h) = (fst (cb h (ctx h) e (user h)) \<noteq> 0)"
  by (simp_all add: call_cb_def split: prod.splits)

lemma upd_facts [simp]:
  "evs (upd f h) = evs h" "cb (upd f h) = cb h" "user (upd f h) = user h"
  by (simp_all add: upd_def)



lemma minor_unassigned:
  fixes sm :: byte
  assumes "sm < 20"
  shows "sm \<noteq> 31"
    "sm \<noteq> 20" "sm \<noteq> 21" "sm \<noteq> 22" "sm \<noteq> 23" "sm \<noteq> 24" "sm \<noteq> 25" "sm \<noteq> 26" "sm \<noteq> 27"
  using assms by auto

lemma reject_facts [simp]:
  "flow_code (reject r h) = Some r"
  "evs (flow_handle (reject r h)) = evs h @ [(LECPCB_FAILED, ctx h)]"
  by (simp_all add: reject_def)

lemma i2_reserved:
  "28 \<le> sm \<Longrightarrow> flow_code (i2 h sm) = Some LECP_REJECT_BAD_CODING \<and>
     evs (flow_handle (i2 h sm)) = evs h @ [(LECPCB_FAILED, ctx h)]"
  by (simp add: i2_def bad_coding_def)











text \<open>The bytes of an argument in the item union.\<close>

lemma be_nat_bound: "be_nat bs < 256 ^ length bs"
proof (induction bs)
  case Nil
  show ?case by simp
next
  case (Cons b bs)
  have "unat b < 256" using unsigned_less [of b] by simp
  then have "unat b \<le> 255" by simp
  then have "unat b * 256 ^ length bs \<le> 255 * 256 ^ length bs" by (rule mult_le_mono1)
  from add_le_less_mono [OF this Cons.IH]
  have "unat b * 256 ^ length bs + be_nat bs < 255 * 256 ^ length bs + 256 ^ length bs" .
  then show ?case by simp
qed

lemma bit_byte_at:
  "bit (push_bit (8 * k) (ucast (v :: byte)) :: 64 word) n \<Longrightarrow> 8 * k \<le> n \<and> n < 8 * k + 8"
  by (auto simp: bit_simps dest: bit_imp_le_length)

lemma store_zero_byte:
  fixes w :: "64 word"
  assumes "\<And>n. n < 8 * k + 8 \<Longrightarrow> \<not> bit w n"
  shows "union_store False k v w = w + push_bit (8 * k) (ucast v)"
proof -
  have m: "(255 :: 64 word) = mask 8" by (simp add: mask_eq_exp_minus_1)
  have "w AND NOT (push_bit (8 * k) 0xFF) = w"
  proof (rule bit_word_eqI)
    fix n assume "n < LENGTH(64)"
    show "bit (w AND NOT (push_bit (8 * k) 0xFF)) n = bit w n"
    proof (cases "n < 8 * k + 8")
      case True
      with assms [of n] show ?thesis by (simp add: bit_simps)
    next
      case False
      with \<open>n < LENGTH(64)\<close> show ?thesis by (auto simp add: bit_simps m)
    qed
  qed
  moreover have "w + push_bit (8 * k) (ucast v) = w OR push_bit (8 * k) (ucast v)"
    by (rule disjunctive_add) (use assms bit_byte_at [of k v] in blast)
  ultimately show ?thesis by (simp add: union_store_def)
qed

lemma push_byte_of_nat:
  "(push_bit (8 * k) (ucast (v :: byte)) :: 64 word) = of_nat (unat v * 256 ^ k)"
proof -
  have "(256 :: nat) ^ k = 2 ^ (8 * k)" by (simp add: power_mult)
  then show ?thesis by (simp add: push_bit_eq_mult)
qed

lemma stored_le_value:
  "(\<And>n. n < 8 * length bs \<Longrightarrow> \<not> bit w n) \<Longrightarrow> stored_le bs w = w + of_nat (be_nat bs)"
proof (induction bs arbitrary: w)
  case Nil
  show ?case by simp
next
  case (Cons b bs)
  let ?p = "push_bit (8 * length bs) (ucast b) :: 64 word"
  have st: "union_store False (length bs) b w = w + ?p"
    by (rule store_zero_byte) (use Cons.prems in simp)
  have orr: "w + ?p = w OR ?p"
    by (rule disjunctive_add) (use Cons.prems bit_byte_at [of "length bs" b] in force)
  have low: "\<not> bit (w + ?p) n" if "n < 8 * length bs" for n
    using that Cons.prems [of n] bit_byte_at [of "length bs" b n] by (simp add: orr bit_simps)
  from Cons.IH [of "w + ?p"] low have "stored_le bs (w + ?p) = w + ?p + of_nat (be_nat bs)"
    by blast
  then show ?case by (simp add: st push_byte_of_nat)
qed

lemma stored_le_zero:
  assumes "length bs \<le> 8"
  shows "unat (stored_le bs 0) = be_nat bs"
proof -
  have "(256 :: nat) ^ length bs \<le> 256 ^ 8" using assms by (intro power_increasing) simp_all
  with be_nat_bound [of bs] have "be_nat bs < 2 ^ 64" by simp
  moreover have "stored_le bs 0 = of_nat (be_nat bs)" using stored_le_value [of bs 0] by simp
  ultimately show ?thesis by (simp add: unat_of_nat)
qed

text \<open>The log only grows.\<close>

lemma log_from_refl: "log_from (evs h) h"
  by (simp add: log_from_def)

lemma log_from_call_cb [simp]: "log_from xs h \<Longrightarrow> log_from xs (snd (call_cb e h))"
  by (auto simp: log_from_def)

lemma log_from_upd [simp]: "log_from xs (upd f h) = log_from xs h"
  by (simp add: log_from_def)

lemma log_from_ctx [simp]: "log_from xs (h\<lparr>ctx := c\<rparr>) = log_from xs h"
  by (simp add: log_from_def)

lemma log_from_push [simp]: "log_from xs h \<Longrightarrow> log_from xs (snd (lecp_push h a b s))"
  by (simp add: lecp_push_def case_prod_beta split: option.splits)

lemma log_from_pop [simp]: "log_from xs h \<Longrightarrow> log_from xs (snd (lecp_pop h))"
  by (simp add: lecp_pop_def Let_def case_prod_beta split: option.splits)

lemma log_from_completed_loop:
  fixes h :: "'u lecp"
  shows "log_from xs h \<Longrightarrow> log_from xs (snd (lwcp_completed_loop h indet il))"
proof (induction "ctx_sp (ctx h)" arbitrary: h indet il rule: less_induct)
  case less
  show ?case
  proof (cases "ctx_sp (ctx h) = 0")
    case True
    with less.prems show ?thesis by (subst lwcp_completed_loop.simps) simp
  next
    case False
    have rec: "log_from xs (snd (lwcp_completed_loop (snd (lecp_pop h')) False il'))"
      if "ctx_sp (ctx h') = ctx_sp (ctx h)" and "log_from xs h'" for h' :: "'u lecp" and il'
    proof -
      have "ctx_sp (ctx (snd (lecp_pop h'))) < ctx_sp (ctx h)"
        using lecp_pop_sp [of "fst (lecp_pop h')" "snd (lecp_pop h')" h'] that(1) False by simp
      from less.hyps [OF this] that(2) show ?thesis by simp
    qed
    show ?thesis
      using False less.prems
      by (subst lwcp_completed_loop.simps)
         (simp add: Let_def case_prod_beta ctx_upd rec set_parent_sp i_incr_sp)
  qed
qed

lemma log_from_completed [simp]:
  "log_from xs h \<Longrightarrow> log_from xs (snd (lwcp_completed h indet))"
  by (simp add: lwcp_completed_def log_from_completed_loop)

lemma log_from_reject [simp]:
  "log_from xs h \<Longrightarrow> log_from xs (flow_handle (reject r h))"
  "log_from xs h \<Longrightarrow> log_from xs (flow_handle (reject_overflow h))"
  "log_from xs h \<Longrightarrow> log_from xs (flow_handle (bad_coding h))"
  "log_from xs h \<Longrightarrow> log_from xs (flow_handle (reject_callback h))"
  by (simp_all add: reject_def reject_overflow_def bad_coding_def reject_callback_def)

lemma log_from_start_tag [simp]:
  "log_from xs h \<Longrightarrow> log_from xs (flow_handle (start_tag_enclosure h))"
  by (simp add: start_tag_enclosure_def case_prod_beta)

lemma log_from_issue [simp]:
  "log_from xs h \<Longrightarrow> log_from xs (flow_handle (issue h))"
  by (simp add: issue_def case_prod_beta)

lemma log_from_i2 [simp]:
  "log_from xs h \<Longrightarrow> log_from xs (flow_handle (i2 h sm))"
  by (simp add: i2_def)

lemma log_from_push_a [simp]:
  "log_from xs h \<Longrightarrow> log_from xs (flow_handle (push_a h))"
  by (simp add: push_a_def)

lemma log_from_push_m [simp]:
  "log_from xs h \<Longrightarrow> log_from xs (flow_handle (push_m h))"
  by (simp add: push_m_def)

lemma log_from_opc_string [simp]:
  "log_from xs h \<Longrightarrow> log_from xs (flow_handle (opc_string h sm to))"
  by (simp add: opc_string_def Let_def case_prod_beta)

lemma log_from_opc_array [simp]:
  "log_from xs h \<Longrightarrow> log_from xs (flow_handle (opc_array h sm))"
  by (simp add: opc_array_def Let_def case_prod_beta)

lemma log_from_opc_map [simp]:
  "log_from xs h \<Longrightarrow> log_from xs (flow_handle (opc_map h sm))"
  by (simp add: opc_map_def Let_def case_prod_beta)

lemma log_from_opc_tag [simp]:
  "log_from xs h \<Longrightarrow> log_from xs (flow_handle (opc_tag h sm))"
  by (simp add: opc_tag_def)

lemma log_from_opc_float [simp]:
  "log_from xs h \<Longrightarrow> log_from xs (flow_handle (opc_float h sm))"
  by (simp add: opc_float_def case_prod_beta)

lemma log_from_opc [simp]:
  "log_from xs h \<Longrightarrow> log_from xs (flow_handle (opc h c))"
  by (simp add: opc_def Let_def)

lemma log_from_collected [simp]:
  "log_from xs h \<Longrightarrow> log_from xs (flow_handle (collected h))"
  by (simp add: collected_def Let_def)

lemma log_from_collect [simp]:
  "log_from xs h \<Longrightarrow> log_from xs (flow_handle (collect h c))"
  by (simp add: collect_def Let_def)

lemma log_from_simplex8 [simp]:
  "log_from xs h \<Longrightarrow> log_from xs (flow_handle (simplex8 h c))"
  by (simp add: simplex8_def case_prod_beta)

lemma log_from_collate_issue [simp]:
  "log_from xs h \<Longrightarrow> log_from xs (flow_handle (collate_issue h))"
  by (simp add: collate_issue_def Let_def case_prod_beta)

lemma log_from_collate_spill [simp]:
  "log_from xs h \<Longrightarrow> log_from xs (flow_handle (collate_spill h))"
  by (simp add: collate_spill_def Let_def)

lemma log_from_collate [simp]:
  "log_from xs h \<Longrightarrow> log_from xs (flow_handle (collate h c))"
  by (simp add: collate_def Let_def)

lemma log_from_only_same [simp]:
  "log_from xs h \<Longrightarrow> log_from xs (flow_handle (only_same h c))"
  by (simp add: only_same_def Let_def case_prod_beta)

lemma log_from_parse_byte:
  "log_from xs h \<Longrightarrow> log_from xs (flow_handle (lecp_parse_byte h c))"
  by (simp add: lecp_parse_byte_def split: lecp_states.splits)

lemma log_from_parse: "log_from xs h \<Longrightarrow> log_from xs (snd (lecp_parse h bs))"
proof (induction bs arbitrary: h)
  case Nil
  then show ?case by simp
next
  case (Cons c cs)
  from log_from_parse_byte [OF Cons.prems, of c] Cons.IH show ?case
    by (cases "lecp_parse_byte h c") simp_all
qed

text \<open>A whole collection, and the integer it leaves.\<close>

lemma small_of_nat_neq_0:
  "0 < n \<Longrightarrow> n \<le> 8 \<Longrightarrow> (of_nat n :: 64 word) \<noteq> 0"
  by (simp add: word_of_nat_eq_0_iff) (auto dest: dvd_imp_le)

lemma collect_run:
  fixes h :: "'u lecp"
  assumes "st_s (top (ctx h)) = LECP_COLLECT" "ctx_sp (ctx h) < length (ctx_st (ctx h))"
    "\<not> ctx_be (ctx h)" "st_collect_rem (top (ctx h)) = of_nat (length bs)"
    "bs \<noteq> []" "length bs \<le> 8" "ctx_collect_tgt (ctx h) = int (length bs) - 1"
  shows "lecp_parse h (bs @ rest) =
           (case collected (upd (collected_ctx bs) h) of
              Next h' \<Rightarrow> lecp_parse h' rest
            | Return r h' \<Rightarrow> (r, h'))"
  using assms
proof (induction bs arbitrary: h)
  case Nil
  then show ?case by simp
next
  case (Cons b bs)
  let ?h1 = "upd (\<lambda>x. set_top (\<lambda>f. f\<lparr>st_collect_rem := st_collect_rem f - 1\<rparr>)
                        (collect_store b x)) h"
  have same: "upd (collected_ctx bs) ?h1 = upd (collected_ctx (b # bs)) h"
    using Cons.prems
    by (simp add: upd_def collected_ctx_def collect_store_def set_top_def top_def Let_def
        algebra_simps)
  have rem: "st_collect_rem (top (ctx ?h1)) = of_nat (length bs)"
    using Cons.prems by (simp add: ctx_upd top_def set_top_def collect_store_def Let_def)
  have byte: "lecp_parse_byte h b =
                (if (of_nat (length bs) :: 64 word) \<noteq> 0 then Next ?h1 else collected ?h1)"
    using Cons.prems(1) rem by (simp add: lecp_parse_byte_def collect_def Let_def)
  show ?case
  proof (cases bs)
    case Nil
    have "?h1 = upd (collected_ctx [b]) h"
      using Cons.prems Nil
      by (simp add: upd_def collected_ctx_def collect_store_def set_top_def top_def Let_def)
    with byte Nil show ?thesis by simp
  next
    case (Cons b2 bs2)
    have ne: "(of_nat (length bs) :: 64 word) \<noteq> 0"
      using Cons Cons.prems by (intro small_of_nat_neq_0) simp_all
    have "lecp_parse ?h1 (bs @ rest) =
           (case collected (upd (collected_ctx bs) ?h1) of
              Next h' \<Rightarrow> lecp_parse h' rest
            | Return r h' \<Rightarrow> (r, h'))"
      using Cons Cons.prems rem
      by (intro Cons.IH)
         (simp_all add: ctx_upd top_def set_top_def collect_store_def Let_def)
    with byte ne same show ?thesis by simp
  qed
qed

lemma unat_ucast_byte: "unat (ucast (v :: byte) :: 64 word) = unat v"
proof -
  have "uint (ucast v :: 64 word) = uint v"
    by (rule uint_up_ucast) (simp add: is_up)
  then show ?thesis by (simp only: unat_eq_nat_uint)
qed

lemma sint_minus1_minus:
  fixes w :: "64 word"
  shows "sint (- 1 - w) =
           (if unat w < 2 ^ 63 then - 1 - int (unat w) else 2 ^ 64 - 1 - int (unat w))"
proof -
  define u where "u = unat w"
  define k :: int where "k = (if u < 2 ^ 63 then - 1 - int u else 2 ^ 64 - 1 - int u)"
  have u: "u < 2 ^ 64" using unsigned_less [of w] by (simp add: u_def)
  have wu: "w = of_nat u" by (simp add: u_def)
  have w: "- 1 - w = word_of_int k" by (simp add: k_def wu)
  have "- (2 ^ 63) \<le> k \<and> k < 2 ^ 63" using u by (simp add: k_def)
  then have "sint (word_of_int k :: 64 word) = k"
    by (simp add: sint_sbintrunc' signed_take_bit_int_eq_self)
  with w show ?thesis by (simp add: k_def u_def)
qed

text \<open>The first event of a feed, when the log is known to start with it.\<close>

lemma first_event_of:
  assumes "log_from (evs h @ [(e, x)]) (snd (lecp_parse h bs))"
  shows "take 1 (feed_events h bs) = [(e, x)]"
  using assms by (auto simp: log_from_def feed_events_def)

lemma issue_first:
  assumes "ctx_item_opcode (ctx h) \<noteq> LWS_CBOR_MAJTYP_TAG"
  shows "log_from (evs h @ [(ctx_present (ctx h), ctx h)]) (flow_handle (issue h))"
proof -
  have "log_from (evs h @ [(ctx_present (ctx h), ctx h)]) (snd (call_cb (ctx_present (ctx h)) h))"
    by (simp add: log_from_def)
  then show ?thesis using assms
    by (simp add: issue_def case_prod_beta)
qed

lemma parse_after_flow:
  assumes "log_from xs (flow_handle fl)"
  shows "log_from xs (snd (case fl of Next h' \<Rightarrow> lecp_parse h' rest | Return r h' \<Rightarrow> (r, h')))"
  using assms by (cases fl) (simp_all add: log_from_parse)

lemma uint_immediate:
  assumes "st_s (top (ctx h)) = LECP_OPC" "c AND 0xE0 = 0x00" "c AND 0x1F < 24"
  shows "first_reason h (c # rest) = [LECPCB_VAL_NUM_UINT] \<and>
         first_u64 h (c # rest) = [unat (c AND 0x1F)]"
proof -
  let ?h1 = "upd (\<lambda>x. x\<lparr>ctx_item_u := ucast (c AND 0x1F)\<rparr>)
     (upd (\<lambda>x. x\<lparr>ctx_present := LECPCB_VAL_NUM_UINT\<rparr>)
       (upd (\<lambda>x. (set_top (\<lambda>f. f\<lparr>st_opcode := 0\<rparr>) x)\<lparr>ctx_item_opcode := 0\<rparr>) h))"
  have b: "lecp_parse_byte h c = issue ?h1"
    using assms by (simp add: lecp_parse_byte_def opc_def Let_def)
  have "log_from (evs ?h1 @ [(ctx_present (ctx ?h1), ctx ?h1)]) (flow_handle (issue ?h1))"
    by (rule issue_first) (simp add: ctx_upd)
  from parse_after_flow [OF this, of rest] b
  have "log_from (evs h @ [(LECPCB_VAL_NUM_UINT, ctx ?h1)]) (snd (lecp_parse h (c # rest)))"
    by (simp add: ctx_upd)
  from first_event_of [OF this] show ?thesis
    by (simp add: first_reason_def first_u64_def ctx_upd unat_ucast_byte)
qed

lemma negint_immediate:
  assumes "st_s (top (ctx h)) = LECP_OPC" "c AND 0xE0 = 0x20" "c AND 0x1F < 24"
  shows "first_reason h (c # rest) = [LECPCB_VAL_NUM_INT] \<and>
         first_i64 h (c # rest) = [- 1 - int (unat (c AND 0x1F))]"
proof -
  let ?h1 = "upd (\<lambda>x. x\<lparr>ctx_item_u := - 1 - ucast (c AND 0x1F)\<rparr>)
     (upd (\<lambda>x. x\<lparr>ctx_present := LECPCB_VAL_NUM_INT\<rparr>)
       (upd (\<lambda>x. (set_top (\<lambda>f. f\<lparr>st_opcode := 0x20\<rparr>) x)\<lparr>ctx_item_opcode := 0x20\<rparr>) h))"
  have b: "lecp_parse_byte h c = issue ?h1"
    using assms by (simp add: lecp_parse_byte_def opc_def Let_def)
  have "log_from (evs ?h1 @ [(ctx_present (ctx ?h1), ctx ?h1)]) (flow_handle (issue ?h1))"
    by (rule issue_first) (simp add: ctx_upd)
  from parse_after_flow [OF this, of rest] b
  have "log_from (evs h @ [(LECPCB_VAL_NUM_INT, ctx ?h1)]) (snd (lecp_parse h (c # rest)))"
    by (simp add: ctx_upd)
  from first_event_of [OF this]
  have "first_reason h (c # rest) = [LECPCB_VAL_NUM_INT] \<and>
        first_i64 h (c # rest) = [sint (- 1 - ucast (c AND 0x1F) :: 64 word)]"
    by (simp add: first_reason_def first_i64_def ctx_upd)
  moreover have "unat (ucast (c AND 0x1F) :: 64 word) = unat (c AND 0x1F)"
    by (rule unat_ucast_byte)
  moreover have "unat (c AND 0x1F) < 2 ^ 63"
  proof -
    have "unat (c AND 0x1F) < 256" using unsigned_less [of "c AND 0x1F"] by simp
    then show ?thesis by simp
  qed
  ultimately show ?thesis
    by (simp add: sint_minus1_minus)
qed


lemma minor_width:
  fixes sm :: byte
  assumes "24 \<le> sm" "sm \<le> 27"
  shows "\<not> sm < 24" "\<not> 28 \<le> sm" "unat (sm - 24) \<le> 3"
  using assms by unat_arith+

lemma top_set_top: "ctx_sp c < length (ctx_st c) \<Longrightarrow> top (set_top f c) = f (top c)"
  by (simp add: top_def set_top_def)

lemma int_with_argument:
  fixes h :: "'u lecp"
  assumes s: "st_s (top (ctx h)) = LECP_OPC" and sp: "ctx_sp (ctx h) < length (ctx_st (ctx h))"
    and le: "\<not> ctx_be (ctx h)"
    and mj: "c AND 0xE0 = 0x00 \<or> c AND 0xE0 = 0x20"
    and sm: "24 \<le> c AND 0x1F" "c AND 0x1F \<le> 27"
    and len: "length bs = 2 ^ unat ((c AND 0x1F) - 24)"
  shows "(c AND 0xE0 = 0x00 \<longrightarrow>
            first_reason h (c # bs @ rest) = [LECPCB_VAL_NUM_UINT] \<and>
            first_u64 h (c # bs @ rest) = [be_nat bs]) \<and>
         (c AND 0xE0 = 0x20 \<longrightarrow>
            first_reason h (c # bs @ rest) = [LECPCB_VAL_NUM_INT] \<and>
            first_i64 h (c # bs @ rest) =
              [if be_nat bs < 2 ^ 63 then - 1 - int (be_nat bs)
               else 2 ^ 64 - 1 - int (be_nat bs)])"
proof -
  let ?sm = "c AND 0x1F"
  let ?m = "c AND 0xE0"
  let ?p = "if ?m = 0x00 then LECPCB_VAL_NUM_UINT else LECPCB_VAL_NUM_INT"
  note w = minor_width [OF sm]
  have len8: "length bs \<le> 8" "bs \<noteq> []" "length bs < 256"
  proof -
    have "(2 :: nat) ^ unat (?sm - 24) \<le> 2 ^ 3" using w(3) by (intro power_increasing) simp_all
    with len show "length bs \<le> 8" by simp
    then show "length bs < 256" by simp
    from len show "bs \<noteq> []" by auto
  qed
  define h1 where "h1 = upd (\<lambda>x. ex (x\<lparr>ctx_item_u := 0\<rparr>) 0 ((2 ^ unat (?sm - 24)) mod 256))
     (upd (\<lambda>x. x\<lparr>ctx_present := ?p\<rparr>)
       (upd (\<lambda>x. (set_top (\<lambda>f. f\<lparr>st_opcode := ?m\<rparr>) x)\<lparr>ctx_item_opcode := ?m\<rparr>) h))"
  have b: "lecp_parse_byte h c = Next h1"
    using s mj w(1,2) by (auto simp: lecp_parse_byte_def opc_def Let_def i2_def h1_def)
  have c1: "ctx h1 = (set_top (\<lambda>f. f\<lparr>st_opcode := ?m, st_s := LECP_COLLECT,
                                  st_collect_rem := of_nat (length bs)\<rparr>) (ctx h))
                       \<lparr>ctx_item_opcode := ?m, ctx_present := ?p, ctx_item_u := 0,
                         ctx_collect_tgt := int (length bs) - 1\<rparr>"
    using le len len8(3) sp
    by (simp add: h1_def ctx_upd ex_def set_top_def)
  have e1: "evs h1 = evs h" by (simp add: h1_def)
  have run: "lecp_parse h1 (bs @ rest) =
           (case collected (upd (collected_ctx bs) h1) of
              Next h' \<Rightarrow> lecp_parse h' rest
            | Return r h' \<Rightarrow> (r, h'))"
    using sp le len8
    by (intro collect_run) (simp_all add: c1 top_def set_top_def)
  define h2 where "h2 = upd buf_reset (upd (collected_ctx bs) h1)"
  have c2: "ctx_item_opcode (ctx h2) = ?m" "st_opcode (top (ctx h2)) = ?m"
    "ctx_present (ctx h2) = ?p" "ctx_item_u (ctx h2) = stored_le bs 0" "evs h2 = evs h"
    using sp by (simp_all add: h2_def ctx_upd c1 e1 collected_ctx_def buf_reset_def top_def
        set_top_def)
  define h3 where "h3 = (if ?m = 0x20 then upd (\<lambda>x. x\<lparr>ctx_item_u := - 1 - stored_le bs 0\<rparr>) h2
                          else h2)"
  have coll: "collected (upd (collected_ctx bs) h1) = issue h3"
    using mj c2 by (auto simp: collected_def Let_def h2_def [symmetric] h3_def)
  have c3: "ctx_item_opcode (ctx h3) \<noteq> LWS_CBOR_MAJTYP_TAG" "ctx_present (ctx h3) = ?p"
    "evs h3 = evs h"
    "ctx_item_u (ctx h3) = (if ?m = 0x20 then - 1 - stored_le bs 0 else stored_le bs 0)"
    using mj c2 by (auto simp: h3_def ctx_upd)
  have "log_from (evs h3 @ [(ctx_present (ctx h3), ctx h3)]) (flow_handle (issue h3))"
    by (rule issue_first) (rule c3(1))
  from parse_after_flow [OF this, of rest] b run coll c3
  have "log_from (evs h @ [(?p, ctx h3)]) (snd (lecp_parse h (c # bs @ rest)))"
    by simp
  from first_event_of [OF this]
  have first: "take 1 (feed_events h (c # bs @ rest)) = [(?p, ctx h3)]" .
  have val: "unat (stored_le bs 0) = be_nat bs" using len8(1) by (rule stored_le_zero)
  show ?thesis
    using mj first c3(4) val
    by (auto simp: first_reason_def first_u64_def first_i64_def sint_minus1_minus)
qed

text \<open>
  \<^verbatim>\<open>lecp_check_path_match\<close> against the scan on strings: the inner loop, the scan of
  one pattern, the stores to the wildcard array, and the loop over the patterns.
\<close>

lemma holds_cstr: "holds buf (cstr buf)"
proof -
  have len: "length (cstr buf) \<le> length buf" by (simp add: cstr_def length_takeWhile_le)
  have a: "cstr_at buf i = cstr buf ! i \<and> cstr buf ! i \<noteq> 0" if "i < length (cstr buf)" for i
  proof -
    from that len have "i < length buf" by simp
    moreover have "cstr buf ! i = buf ! i" using that by (simp add: cstr_def takeWhile_nth)
    moreover have "cstr buf ! i \<in> set (cstr buf)" using that by simp
    then have "cstr buf ! i \<noteq> 0" unfolding cstr_def by (auto dest: set_takeWhileD)
    ultimately show ?thesis by (simp add: cstr_at_def)
  qed
  have b: "cstr_at buf (length (cstr buf)) = 0"
  proof (cases "length (cstr buf) < length buf")
    case True
    then have "\<not> (buf ! length (cstr buf) \<noteq> 0)"
      unfolding cstr_def by (rule nth_length_takeWhile)
    with True show ?thesis by (simp add: cstr_at_def)
  next
    case False
    then show ?thesis by (simp add: cstr_at_def)
  qed
  from a b show ?thesis by (simp add: holds_def)
qed

lemma holds_at:
  assumes "holds buf s" "p \<le> length s"
  shows "cstr_at buf p \<noteq> 0 \<longleftrightarrow> p < length s"
  using assms by (cases "p = length s") (auto simp: holds_def)

lemma skip_wild_run:
  assumes "holds path P" "p \<le> length P"
  shows "skip_wild path pat p q =
           p + length (takeWhile (\<lambda>x. x \<noteq> 0x2E \<or> cstr_at pat q = 0) (drop p P))"
  using assms(2)
proof (induction "length P - p" arbitrary: p)
  case 0
  then have "p = length P" by simp
  with assms(1) show ?case
    by (subst skip_wild.simps) (simp add: holds_def)
next
  case (Suc n)
  then have lt: "p < length P" by simp
  with assms(1) have c: "cstr_at path p = P ! p" "P ! p \<noteq> 0" by (simp_all add: holds_def)
  have d: "drop p P = P ! p # drop (Suc p) P" using lt by (simp add: Cons_nth_drop_Suc)
  have ih: "skip_wild path pat (Suc p) q =
           Suc p + length (takeWhile (\<lambda>x. x \<noteq> 0x2E \<or> cstr_at pat q = 0) (drop (Suc p) P))"
    using Suc.hyps(1) [of "Suc p"] Suc.hyps(2) lt by simp
  show ?case
    by (subst skip_wild.simps) (simp add: c d ih)
qed


lemma match_scan_glob:
  assumes hp: "holds path P" and hq: "holds pat Q"
  shows "p \<le> length P \<Longrightarrow> q \<le> length Q \<Longrightarrow>
         \<exists>p' q'. match_scan path pat p q w =
                   (p', q', foldl (\<lambda>w k. wild_store k w) w
                              (snd (glob_scan (drop p P) (drop q Q) p))) \<and>
                 p' \<le> length P \<and> q' \<le> length Q \<and>
                 (fst (glob_scan (drop p P) (drop q Q) p) \<longleftrightarrow> p' = length P \<and> q' = length Q)"
proof (induction "length Q - q" arbitrary: p q w rule: less_induct)
  case less
  note p = \<open>p \<le> length P\<close> and q = \<open>q \<le> length Q\<close>
  show ?case
  proof (cases "p < length P \<and> q < length Q")
    case False
    then have stop: "\<not> (cstr_at path p \<noteq> 0 \<and> cstr_at pat q \<noteq> 0)"
      using holds_at [OF hp p] holds_at [OF hq q] by blast
    have ms: "match_scan path pat p q w = (p, q, w)"
      using stop by (subst match_scan.simps) auto
    from False p q consider "p = length P" "q = length Q" | "p = length P" "q < length Q"
      | "p < length P" "q = length Q" by linarith
    then have "glob_scan (drop p P) (drop q Q) p =
                 (p = length P \<and> q = length Q, [])"
    proof cases
      case 1
      then show ?thesis by simp
    next
      case 2
      then have "drop q Q = Q ! q # drop (Suc q) Q" by (simp add: Cons_nth_drop_Suc)
      with 2 show ?thesis by simp
    next
      case 3
      then have "drop p P = P ! p # drop (Suc p) P" by (simp add: Cons_nth_drop_Suc)
      with 3 show ?thesis by simp
    qed
    with ms p q show ?thesis by simp
  next
    case True
    then have lp: "p < length P" and lq: "q < length Q" by simp_all
    have cp: "cstr_at path p = P ! p" "P ! p \<noteq> 0" using hp lp by (simp_all add: holds_def)
    have cq: "cstr_at pat q = Q ! q" "Q ! q \<noteq> 0" using hq lq by (simp_all add: holds_def)
    have dp: "drop p P = P ! p # drop (Suc p) P" using lp by (simp add: Cons_nth_drop_Suc)
    have dq: "drop q Q = Q ! q # drop (Suc q) Q" using lq by (simp add: Cons_nth_drop_Suc)
    show ?thesis
    proof (cases "Q ! q = 0x2A")
      case False
      show ?thesis
      proof (cases "P ! p = Q ! q")
        case ne: False
        have "match_scan path pat p q w = (p, q, w)"
          using False ne by (subst match_scan.simps) (simp add: cp cq)
        moreover have "glob_scan (drop p P) (drop q Q) p = (False, [])"
          using False ne by (simp add: dp dq)
        ultimately show ?thesis using lp lq by simp
      next
        case eq: True
        have ms: "match_scan path pat p q w = match_scan path pat (Suc p) (Suc q) w"
          using False eq by (subst match_scan.simps) (simp add: cp cq)
        have gs: "glob_scan (drop p P) (drop q Q) p =
                    glob_scan (drop (Suc p) P) (drop (Suc q) Q) (Suc p)"
          using False eq by (simp add: dp dq)
        have dec: "length Q - Suc q < length Q - q" and sq: "Suc q \<le> length Q"
          and sp: "Suc p \<le> length P"
          using lq lp by simp_all
        from less.hyps [OF dec sp sq, of w] ms gs show ?thesis by simp
      qed
    next
      case star: True
      let ?f = "\<lambda>x. x \<noteq> 0x2E \<or> cstr_at pat (Suc q) = 0"
      let ?run = "if drop (Suc q) Q = [] then drop p P
                  else takeWhile (\<lambda>x. x \<noteq> 0x2E) (drop p P)"
      let ?p2 = "skip_wild path pat p (Suc q)"
      have fin: "cstr_at pat (Suc q) = 0 \<longleftrightarrow> drop (Suc q) Q = []"
        using holds_at [OF hq, of "Suc q"] lq by auto
      have run: "takeWhile ?f (drop p P) = ?run"
        by (cases "drop (Suc q) Q = []") (simp_all add: fin)
      have p2: "?p2 = p + length ?run"
        using skip_wild_run [OF hp p, of pat "Suc q"] run by simp
      have "length ?run \<le> length (drop p P)"
        using length_takeWhile_le [of "\<lambda>x. x \<noteq> 0x2E" "drop p P"] by simp
      with p2 lp have p2le: "?p2 \<le> length P" by simp
      have ms: "match_scan path pat p q w =
                  match_scan path pat ?p2 (Suc q) (wild_store p w)"
        using star by (subst match_scan.simps) (simp add: cp cq)
      have gs: "glob_scan (drop p P) (drop q Q) p =
                  (fst (glob_scan (drop ?p2 P) (drop (Suc q) Q) ?p2),
                   p # snd (glob_scan (drop ?p2 P) (drop (Suc q) Q) ?p2))"
      proof -
        have "glob_scan (P ! p # drop (Suc p) P) (Q ! q # drop (Suc q) Q) p =
                (let run = (if drop (Suc q) Q = [] then P ! p # drop (Suc p) P
                            else takeWhile (\<lambda>x. x \<noteq> 0x2E) (P ! p # drop (Suc p) P));
                     r = glob_scan (drop (length run) (P ! p # drop (Suc p) P)) (drop (Suc q) Q)
                           (p + length run)
                 in (fst r, p # snd r))"
          using star by simp
        then show ?thesis
          by (simp only: dp [symmetric] dq [symmetric] p2 Let_def drop_drop add.commute)
      qed
      have dec: "length Q - Suc q < length Q - q" and sq: "Suc q \<le> length Q"
        using lq by simp_all
      from less.hyps [OF dec p2le sq, of "wild_store p w"]
      obtain p' q' where r: "match_scan path pat ?p2 (Suc q) (wild_store p w) =
             (p', q', foldl (\<lambda>w k. wild_store k w) (wild_store p w)
                        (snd (glob_scan (drop ?p2 P) (drop (Suc q) Q) ?p2)))"
          "p' \<le> length P" "q' \<le> length Q"
          "fst (glob_scan (drop ?p2 P) (drop (Suc q) Q) ?p2) \<longleftrightarrow> p' = length P \<and> q' = length Q"
        by auto
      show ?thesis
        using ms gs r by simp
    qed
  qed
qed


lemma wild_store_run:
  "n + length ws \<le> length wild \<Longrightarrow> n + length ws < 256 \<Longrightarrow>
   foldl (\<lambda>w k. wild_store k w) (wild, n, ub) ws =
     (take n wild @ map of_nat ws @ drop (n + length ws) wild, n + length ws, ub)"
proof (induction ws arbitrary: wild n)
  case Nil
  then show ?case by simp
next
  case (Cons k ws)
  then have n: "n < length wild" by simp
  have st: "wild_store k (wild, n, ub) = (wild[n := of_nat k], Suc n, ub)"
    using n Cons.prems by (simp add: wild_store_def)
  have "foldl (\<lambda>w k. wild_store k w) (wild[n := of_nat k], Suc n, ub) ws =
          (take (Suc n) (wild[n := of_nat k]) @ map of_nat ws @
             drop (Suc n + length ws) (wild[n := of_nat k]), Suc n + length ws, ub)"
    using Cons.prems by (intro Cons.IH) simp_all
  moreover have "take (Suc n) (wild[n := of_nat k]) = take n wild @ [of_nat k]"
    using n by (simp add: take_Suc_conv_app_nth)
  ultimately show ?case by (simp add: st)
qed

lemma glob_scan_stars: "length (snd (glob_scan P Q k)) \<le> count_list Q 0x2A"
proof (induction P Q k rule: glob_scan.induct)
  case (2 c cs d ds k)
  show ?case
  proof (cases "d = 0x2A")
    case True
    with 2(1) [OF True refl] show ?thesis by (simp add: Let_def)
  next
    case False
    with 2(2) show ?thesis by (cases "c = d") simp_all
  qed
qed simp_all

lemma match_paths_first:
  assumes hp: "holds path P"
    and cnt: "length paths < 256"
    and wl: "length wild < 256"
    and stars: "\<forall>pat \<in> set paths. count_list (cstr pat) 0x2A \<le> length wild"
  shows "n \<le> length paths \<Longrightarrow> length wild0 = length wild \<Longrightarrow>
         \<exists>wild' wc'.
           match_paths path paths (length paths) n (wild0, wc, ub) =
             (fst (first_match glob_scan P (map cstr (drop n paths)) n), wild', wc', ub) \<and>
           length wild' = length wild \<and>
           (fst (first_match glob_scan P (map cstr (drop n paths)) n) \<noteq> 0 \<longrightarrow>
              wc' = length (snd (first_match glob_scan P (map cstr (drop n paths)) n)) \<and>
              take wc' wild' = map of_nat (snd (first_match glob_scan P (map cstr (drop n paths)) n)))"
proof (induction "length paths - n" arbitrary: n wild0 wc rule: less_induct)
  case less
  note n = \<open>n \<le> length paths\<close> and len = \<open>length wild0 = length wild\<close>
  show ?case
  proof (cases "n < length paths")
    case False
    with n have "n = length paths" by simp
    then show ?thesis using len by (subst match_paths.simps) simp
  next
    case True
    let ?pat = "paths ! n"
    let ?Q = "cstr ?pat"
    let ?ws = "snd (glob_scan P ?Q 0)"
    let ?wild1 = "map of_nat ?ws @ drop (length ?ws) wild0"
    have dn: "drop n paths = ?pat # drop (Suc n) paths"
      using True by (simp add: Cons_nth_drop_Suc)
    have "?pat \<in> set paths" using True by simp
    with stars have "count_list ?Q 0x2A \<le> length wild" by blast
    with glob_scan_stars [of P ?Q 0] have wsl: "length ?ws \<le> length wild" by simp
    from match_scan_glob [OF hp holds_cstr [of ?pat], where p = 0 and q = 0 and w = "(wild0, 0, ub)"]
    obtain p' q' where
      ms: "match_scan path ?pat 0 0 (wild0, 0, ub) =
             (p', q', foldl (\<lambda>w k. wild_store k w) (wild0, 0, ub) ?ws)"
      and p': "p' \<le> length P" and q': "q' \<le> length ?Q"
      and ok: "fst (glob_scan P ?Q 0) \<longleftrightarrow> p' = length P \<and> q' = length ?Q"
      by auto
    have fold: "foldl (\<lambda>w k. wild_store k w) (wild0, 0, ub) ?ws = (?wild1, length ?ws, ub)"
      using wild_store_run [of 0 ?ws wild0 ub] wsl wl len by simp
    have l1: "length ?wild1 = length wild" using wsl len by simp
    have more: "cstr_at path p' \<noteq> 0 \<or> cstr_at ?pat q' \<noteq> 0 \<longleftrightarrow> \<not> fst (glob_scan P ?Q 0)"
      using holds_at [OF hp p'] holds_at [OF holds_cstr q'] p' q' ok by auto
    show ?thesis
    proof (cases "fst (glob_scan P ?Q 0)")
      case m: True
      have "match_paths path paths (length paths) n (wild0, wc, ub) =
              (n + 1, ?wild1, length ?ws, ub)"
        using True m more cnt by (subst match_paths.simps) (simp add: ms fold)
      moreover have "first_match glob_scan P (map cstr (drop n paths)) n = (n + 1, ?ws)"
        using m by (simp add: dn)
      ultimately show ?thesis using l1 by simp
    next
      case m: False
      have "match_paths path paths (length paths) n (wild0, wc, ub) =
              match_paths path paths (length paths) (Suc n) (?wild1, length ?ws, ub)"
        using True m more by (subst match_paths.simps) (simp add: ms fold)
      moreover have "first_match glob_scan P (map cstr (drop n paths)) n =
                       first_match glob_scan P (map cstr (drop (Suc n) paths)) (Suc n)"
        using m by (simp add: dn)
      moreover have dec: "length paths - Suc n < length paths - n" and sn: "Suc n \<le> length paths"
        using True by simp_all
      note less.hyps [OF dec sn l1, of "length ?ws"]
      ultimately show ?thesis by simp
    qed
  qed
qed


lemma glob_scan_spec: "fst (glob_scan P Q k) \<Longrightarrow> spec_glob_scan P Q k = glob_scan P Q k"
proof (induction P Q k rule: glob_scan.induct)
  case (2 c cs d ds k)
  show ?case
  proof (cases "d = 0x2A")
    case True
    with 2(1) [OF True refl] 2(3) show ?thesis by (simp add: Let_def)
  next
    case False
    with 2(2) 2(3) show ?thesis by (cases "c = d") simp_all
  qed
qed simp_all

lemma first_match_index:
  "first_match scan P pats n = (i, ws) \<Longrightarrow>
   (i = 0 \<and> ws = [] \<and> (\<forall>pat \<in> set pats. \<not> fst (scan P pat 0))) \<or>
   (\<exists>j < length pats. i = n + j + 1 \<and> fst (scan P (pats ! j) 0) \<and>
        ws = snd (scan P (pats ! j) 0) \<and> (\<forall>j' < j. \<not> fst (scan P (pats ! j') 0)))"
proof (induction pats arbitrary: n)
  case Nil
  then show ?case by simp
next
  case (Cons pat pats)
  show ?case
  proof (cases "fst (scan P pat 0)")
    case True
    with Cons.prems have "i = n + 0 + 1" "ws = snd (scan P pat 0)" by simp_all
    with True show ?thesis by (intro disjI2 exI [of _ 0]) simp
  next
    case False
    with Cons.prems have "first_match scan P pats (n + 1) = (i, ws)" by simp
    from Cons.IH [OF this] show ?thesis
    proof
      assume "i = 0 \<and> ws = [] \<and> (\<forall>pat \<in> set pats. \<not> fst (scan P pat 0))"
      with False show ?thesis by simp
    next
      assume "\<exists>j < length pats. i = n + 1 + j + 1 \<and> fst (scan P (pats ! j) 0) \<and>
        ws = snd (scan P (pats ! j) 0) \<and> (\<forall>j' < j. \<not> fst (scan P (pats ! j') 0))"
      then obtain j where j: "j < length pats" "i = n + 1 + j + 1" "fst (scan P (pats ! j) 0)"
        "ws = snd (scan P (pats ! j) 0)" "\<forall>j' < j. \<not> fst (scan P (pats ! j') 0)" by blast
      have "\<forall>j' < Suc j. \<not> fst (scan P ((pat # pats) ! j') 0)"
        using False j(5) by (auto simp: less_Suc_eq_0_disj)
      with j show ?thesis by (intro disjI2 exI [of _ "Suc j"]) simp
    qed
  qed
qed

subsection \<open>Claim C9: the single byte 0x00\<close>

text \<open>
  C9, as amended. Feeding the single byte \<open>0x00\<close> to a context whose stack is empty
  and whose bottom frame expects a head byte (a freshly constructed context is one),
  with a callback that accepts the reason \<open>LECPCB_VAL_NUM_UINT\<close>, delivers exactly one
  event, \<open>LECPCB_VAL_NUM_UINT\<close> with the value 0 in the item, and returns 0; the stack
  is empty and the frame is in \<open>LECP_OPC\<close> afterwards. No \<open>LECPCB_COMPLETE\<close> event
  follows: \<^verbatim>\<open>lecp.c\<close> never issues that reason.
\<close>

theorem feed_zero_uint_only:
  assumes sp: "ctx_sp (ctx h) = 0" and ne: "ctx_st (ctx h) \<noteq> []"
    and s: "st_s (ctx_st (ctx h) ! 0) = LECP_OPC"
    and acc: "\<And>c u. fst (cb h c LECPCB_VAL_NUM_UINT u) = 0"
  shows "fst (lecp_parse h [0x00]) = 0 \<and>
         map fst (feed_events h [0x00]) = [LECPCB_VAL_NUM_UINT] \<and>
         map (ctx_item_u \<circ> snd) (feed_events h [0x00]) = [0] \<and>
         ctx_sp (ctx (snd (lecp_parse h [0x00]))) = 0 \<and>
         st_s (ctx_st (ctx (snd (lecp_parse h [0x00]))) ! 0) = LECP_OPC"
proof -
  have len: "0 < length (ctx_st (ctx h))" using ne by simp
  obtain u' where cbv:
    "cb h ((set_top (\<lambda>f. f\<lparr>st_opcode := 0\<rparr>) (ctx h))
             \<lparr>ctx_item_opcode := 0, ctx_present := LECPCB_VAL_NUM_UINT, ctx_item_u := 0\<rparr>)
       LECPCB_VAL_NUM_UINT (user h) = (0, u')"
    using acc by (metis prod.collapse)
  show ?thesis
    using sp s len cbv
    by (simp add: feed_events_def lecp_parse_byte_def top_def opc_def upd_def
        issue_def call_cb_def lwcp_completed_def completed_loop_empty set_top_def)
qed

theorem feed_zero_uint_only_witness:
  "fst (lecp_parse (fresh_ctx accept_all []) [0x00]) = 0 \<and>
   map fst (feed_events (fresh_ctx accept_all []) [0x00]) = [LECPCB_VAL_NUM_UINT] \<and>
   map (ctx_item_u \<circ> snd) (feed_events (fresh_ctx accept_all []) [0x00]) = [0]"
proof -
  have a: "ctx_sp (ctx (fresh_ctx accept_all [])) = 0" by code_simp
  have b: "ctx_st (ctx (fresh_ctx accept_all [])) \<noteq> []" by code_simp
  have c: "st_s (ctx_st (ctx (fresh_ctx accept_all [])) ! 0) = LECP_OPC" by code_simp
  have d: "\<And>c u. fst (cb (fresh_ctx accept_all []) c LECPCB_VAL_NUM_UINT u) = 0"
    by (simp add: fresh_ctx_cb accept_all_def)
  from feed_zero_uint_only [OF a b c d] show ?thesis by simp
qed

text \<open>
  C9 as stated fails: on a fresh context the events of feeding \<open>0x00\<close> are not
  \<open>LECPCB_VAL_NUM_UINT\<close> followed by \<open>LECPCB_COMPLETE\<close>.
\<close>

theorem feed_zero_no_complete:
  "map fst (feed_events (fresh_ctx accept_all []) [0x00]) \<noteq>
     [LECPCB_VAL_NUM_UINT, LECPCB_COMPLETE]"
  by code_simp

subsection \<open>Claim C1: the FAILED event on the reject paths\<close>

text \<open>
  C1, at a failing input. The callback refuses \<open>LECPCB_TAG_START\<close> and the byte
  \<open>0xC0\<close> (tag 0) is fed to a fresh context: \<^verbatim>\<open>lecp_parse\<close> returns
  \<open>LECP_REJECT_CALLBACK\<close>, and the only event it has delivered is the refused
  \<open>LECPCB_TAG_START\<close>; no \<open>LECPCB_FAILED\<close> precedes the return. The same happens when
  the tag does not fit on the stack: twelve nested tags on a stack of twelve frames
  return \<open>LECP_STACK_OVERFLOW\<close> after eleven \<open>LECPCB_TAG_START\<close> events and no
  \<open>LECPCB_FAILED\<close>.
\<close>

theorem tag_enclosure_reject_without_failed:
  "fst (lecp_parse (fresh_ctx (reject_on LECPCB_TAG_START) []) [0xC0]) = LECP_REJECT_CALLBACK \<and>
   map fst (feed_events (fresh_ctx (reject_on LECPCB_TAG_START) []) [0xC0]) = [LECPCB_TAG_START] \<and>
   fst (lecp_parse (fresh_ctx accept_all []) (replicate 12 0xC0)) = LECP_STACK_OVERFLOW \<and>
   map fst (feed_events (fresh_ctx accept_all []) (replicate 12 0xC0)) =
     replicate 11 LECPCB_TAG_START"
  by code_simp

subsection \<open>Claim C3: the chunks of an indefinite-length string\<close>

text \<open>
  C3, at failing inputs, each fed to a fresh context that accepts every event.
  \<open>5f 61 41 ff\<close>: the first chunk of an indefinite byte string is a text string; it
  is taken as a chunk of the byte string and \<^verbatim>\<open>lecp_parse\<close> returns 0.
  \<open>5f 41 01 00 ff\<close>: after a first chunk, an unsigned integer is accepted inside the
  string. \<open>5f 41 01 5f 41 02 ff ff\<close>: after a first chunk, an indefinite-length chunk
  is accepted. None of them fails with \<open>LECP_REJECT_BAD_CODING\<close>.
\<close>

theorem indefinite_string_accepts_foreign_chunks:
  "fst (lecp_parse (fresh_ctx accept_all []) [0x5f, 0x61, 0x41, 0xff]) = 0 \<and>
   map fst (feed_events (fresh_ctx accept_all []) [0x5f, 0x61, 0x41, 0xff]) =
     [LECPCB_VAL_BLOB_START, LECPCB_VAL_BLOB_CHUNK, LECPCB_VAL_BLOB_END] \<and>
   fst (lecp_parse (fresh_ctx accept_all []) [0x5f, 0x41, 0x01, 0x00, 0xff]) = 0 \<and>
   map fst (feed_events (fresh_ctx accept_all []) [0x5f, 0x41, 0x01, 0x00, 0xff]) =
     [LECPCB_VAL_BLOB_START, LECPCB_VAL_BLOB_CHUNK, LECPCB_VAL_NUM_UINT, LECPCB_VAL_BLOB_END] \<and>
   fst (lecp_parse (fresh_ctx accept_all []) [0x5f, 0x41, 0x01, 0x5f, 0x41, 0x02, 0xff, 0xff]) = 0 \<and>
   map fst (feed_events (fresh_ctx accept_all []) [0x5f, 0x41, 0x01, 0x5f, 0x41, 0x02, 0xff, 0xff]) =
     [LECPCB_VAL_BLOB_START, LECPCB_VAL_BLOB_CHUNK, LECPCB_VAL_BLOB_CHUNK,
      LECPCB_VAL_BLOB_END, LECPCB_VAL_BLOB_END]"
  by code_simp

subsection \<open>Claim C4: exceeded capacities\<close>

text \<open>
  C4, at a failing input. On a stack of twelve frames, twelve nested indefinite-length
  maps (\<open>bf\<close> twelve times) exceed the stack with the twelfth: \<^verbatim>\<open>lecp_push\<close> refuses
  it, the result is dropped, and \<^verbatim>\<open>lecp_parse\<close> returns \<open>LECP_CONTINUE\<close> with twelve
  \<open>LECPCB_OBJECT_START\<close> events, no \<open>LECPCB_FAILED\<close>, and the stack pointer at 11.
\<close>

theorem container_push_overflow_dropped:
  "fst (lecp_parse (fresh_ctx accept_all []) (replicate 12 0xBF)) = LECP_CONTINUE \<and>
   map fst (feed_events (fresh_ctx accept_all []) (replicate 12 0xBF)) =
     replicate 12 LECPCB_OBJECT_START \<and>
   ctx_sp (ctx (snd (lecp_parse (fresh_ctx accept_all []) (replicate 12 0xBF)))) = 11"
  by code_simp

text \<open>
  The second defect under C4: with a path of 128 bytes, the map \<open>a1 78 7f\<close> followed
  by a name of 127 bytes passes the test \<^verbatim>\<open>ppos + npos > sizeof(path)\<close> (1 + 127 is
  not more than 128), and the copy of the name with its NUL stores at index 128, one
  past the end of the path; \<^verbatim>\<open>lecp_parse\<close> does not return \<open>LECP_STACK_OVERFLOW\<close>.
  One byte more and the overflow is reported.
\<close>

lemma map_name_stored_past_path:
  "fst (lecp_parse (fresh_ctx accept_all []) ([0xA1, 0x78, 0x7F] @ replicate 127 0x61)) =
     LECP_CONTINUE \<and>
   ctx_ub (ctx (snd (lecp_parse (fresh_ctx accept_all [])
                  ([0xA1, 0x78, 0x7F] @ replicate 127 0x61)))) \<and>
   fst (lecp_parse (fresh_ctx accept_all []) ([0xA1, 0x78, 0x80] @ replicate 128 0x61)) =
     LECP_STACK_OVERFLOW"
  by code_simp

subsection \<open>Claim C10: the lifecycle operations and the result of the callback\<close>

text \<open>
  C10. \<^verbatim>\<open>lecp_construct\<close>, \<^verbatim>\<open>lecp_destruct\<close> and \<^verbatim>\<open>lecp_change_callback\<close> run to
  completion whatever the callback returns: each equation below holds for every
  callback, and the result of the callback occurs in none of them except through the
  state of the user. The context that \<^verbatim>\<open>lecp_construct\<close> builds does not depend on
  the callback at all; the other two leave the context as it was;
  \<^verbatim>\<open>lecp_change_callback\<close> installs the new callback after the old one has seen
  DESTRUCTED, and the new one then sees CONSTRUCTED. A callback that refuses every
  event still gets a constructed context, while the same callback stops a feed: the
  byte \<open>0x00\<close> is then answered with \<open>LECP_REJECT_CALLBACK\<close>.
\<close>

theorem lifecycle_ignores_callback_result:
  "ctx (lecp_construct mem be f u ps n) = ctx (lecp_construct mem be g u' ps n) \<and>
   cb (lecp_construct mem be f u ps n) = f \<and>
   user (lecp_construct mem be f u ps n) =
     snd (f (ctx (lecp_construct mem be f u ps n)) LECPCB_CONSTRUCTED u) \<and>
   evs (lecp_construct mem be f u ps n) =
     [(LECPCB_CONSTRUCTED, ctx (lecp_construct mem be f u ps n))] \<and>
   ctx (lecp_destruct h) = ctx h \<and> cb (lecp_destruct h) = cb h \<and>
   user (lecp_destruct h) = snd (cb h (ctx h) LECPCB_DESTRUCTED (user h)) \<and>
   evs (lecp_destruct h) = evs h @ [(LECPCB_DESTRUCTED, ctx h)] \<and>
   ctx (lecp_change_callback h g') = ctx h \<and> cb (lecp_change_callback h g') = g' \<and>
   user (lecp_change_callback h g') =
     snd (g' (ctx h) LECPCB_CONSTRUCTED (snd (cb h (ctx h) LECPCB_DESTRUCTED (user h)))) \<and>
   evs (lecp_change_callback h g') =
     evs h @ [(LECPCB_DESTRUCTED, ctx h), (LECPCB_CONSTRUCTED, ctx h)] \<and>
   map fst (evs (fresh_ctx reject_all [])) = [LECPCB_CONSTRUCTED] \<and>
   fst (lecp_parse (fresh_ctx reject_all []) [0x00]) = LECP_REJECT_CALLBACK"
proof -
  have construct:
    "ctx (lecp_construct mem be f u ps n) = ctx (lecp_construct mem be g u' ps n) \<and>
     cb (lecp_construct mem be f u ps n) = f \<and>
     user (lecp_construct mem be f u ps n) =
       snd (f (ctx (lecp_construct mem be f u ps n)) LECPCB_CONSTRUCTED u) \<and>
     evs (lecp_construct mem be f u ps n) =
       [(LECPCB_CONSTRUCTED, ctx (lecp_construct mem be f u ps n))]"
    by (simp add: lecp_construct_def call_cb_def split: prod.splits)
  have destruct:
    "ctx (lecp_destruct h) = ctx h \<and> cb (lecp_destruct h) = cb h \<and>
     user (lecp_destruct h) = snd (cb h (ctx h) LECPCB_DESTRUCTED (user h)) \<and>
     evs (lecp_destruct h) = evs h @ [(LECPCB_DESTRUCTED, ctx h)]"
    by (simp add: lecp_destruct_def call_cb_def split: prod.splits)
  have change:
    "ctx (lecp_change_callback h g') = ctx h \<and> cb (lecp_change_callback h g') = g' \<and>
     user (lecp_change_callback h g') =
       snd (g' (ctx h) LECPCB_CONSTRUCTED (snd (cb h (ctx h) LECPCB_DESTRUCTED (user h)))) \<and>
     evs (lecp_change_callback h g') =
       evs h @ [(LECPCB_DESTRUCTED, ctx h), (LECPCB_CONSTRUCTED, ctx h)]"
    by (simp add: lecp_change_callback_def call_cb_def split: prod.splits)
  have feed:
    "map fst (evs (fresh_ctx reject_all [])) = [LECPCB_CONSTRUCTED] \<and>
     fst (lecp_parse (fresh_ctx reject_all []) [0x00]) = LECP_REJECT_CALLBACK"
    by code_simp
  from construct destruct change feed show ?thesis by blast
qed

subsection \<open>Claim C5: feeding in chunks\<close>

text \<open>
  C5. For every context, every input and every partition of the input into
  consecutive chunks (a first chunk \<open>c\<close> and the list \<open>ds\<close> of the others, any of
  them possibly empty), feeding the chunks in order to the same context gives the same
  return code and leaves the same context, state of the user and log of callback
  events as feeding the whole input in one call. This holds for the caller that
  stops at the first error code, as the interface requires (after an error the context
  must be constructed again); and for an input that the single call does not answer
  with an error code it holds as well for a caller that feeds every chunk without
  looking at the results.
\<close>

theorem chunked_feed_same_as_whole:
  "feed_chunks h c ds = lecp_parse h (c @ concat ds) \<and>
   (\<not> fst (lecp_parse h (c @ concat ds)) < LECP_CONTINUE \<longrightarrow>
      feed_each h c ds = lecp_parse h (c @ concat ds))"
  using feed_chunks_whole [of h c ds] feed_each_whole [of h c ds] by simp

text \<open>
  The map \<open>{"a": 1, "b": [2, 3]}\<close> of scenario 5, fed one byte at a time: the same
  result and the same events as in one call.
\<close>

theorem chunked_feed_same_as_whole_witness:
  "\<not> fst (lecp_parse (fresh_ctx accept_all [])
            ([0xA2] @ concat [[0x61], [0x61], [0x01], [0x61], [0x62], [0x82], [0x02], [0x03]]))
        < LECP_CONTINUE \<and>
   fst (feed_each (fresh_ctx accept_all []) [0xA2]
          [[0x61], [0x61], [0x01], [0x61], [0x62], [0x82], [0x02], [0x03]]) = 0 \<and>
   map fst (evs (snd (feed_each (fresh_ctx accept_all []) [0xA2]
          [[0x61], [0x61], [0x01], [0x61], [0x62], [0x82], [0x02], [0x03]]))) =
     [LECPCB_CONSTRUCTED, LECPCB_OBJECT_START, LECPCB_VAL_STR_START, LECPCB_VAL_STR_END,
      LECPCB_VAL_NUM_UINT, LECPCB_VAL_STR_START, LECPCB_VAL_STR_END, LECPCB_ARRAY_START,
      LECPCB_VAL_NUM_UINT, LECPCB_VAL_NUM_UINT, LECPCB_ARRAY_END, LECPCB_OBJECT_END]"
proof -
  let ?h = "fresh_ctx accept_all []"
  let ?ds = "[[0x61], [0x61], [0x01], [0x61], [0x62], [0x82], [0x02], [0x03]] :: byte list list"
  have whole: "fst (lecp_parse ?h ([0xA2] @ concat ?ds)) = 0 \<and>
    map fst (evs (snd (lecp_parse ?h ([0xA2] @ concat ?ds)))) =
     [LECPCB_CONSTRUCTED, LECPCB_OBJECT_START, LECPCB_VAL_STR_START, LECPCB_VAL_STR_END,
      LECPCB_VAL_NUM_UINT, LECPCB_VAL_STR_START, LECPCB_VAL_STR_END, LECPCB_ARRAY_START,
      LECPCB_VAL_NUM_UINT, LECPCB_VAL_NUM_UINT, LECPCB_ARRAY_END, LECPCB_OBJECT_END]"
    by code_simp
  then have ok: "\<not> fst (lecp_parse ?h ([0xA2] @ concat ?ds)) < LECP_CONTINUE" by simp
  from chunked_feed_same_as_whole [of ?h "[0xA2]" ?ds] ok
  have "feed_each ?h [0xA2] ?ds = lecp_parse ?h ([0xA2] @ concat ?ds)" by blast
  with whole ok show ?thesis by simp
qed

subsection \<open>Claim C2: reserved minors and unassigned simple values\<close>




subsection \<open>Claim C7: how long a match lasts\<close>

text \<open>
  C7, as amended. Pattern matching is recomputed only while no match is active: with a
  match recorded, \<^verbatim>\<open>lecp_check_path_match\<close> leaves the context as it is. Once a match
  is recorded it persists: \<^verbatim>\<open>lecp_pop\<close> keeps the match index, the recorded match
  length and the wildcards whatever length it truncates the path to, and so does
  every call of \<^verbatim>\<open>lecp_parse\<close>, for every input. Nothing in \<^verbatim>\<open>lecp.c\<close> releases a
  match, and the recorded match length is never read.
\<close>

theorem recorded_match_persists:
  assumes "ctx_path_match (ctx h) \<noteq> 0"
  shows "lecp_check_path_match (ctx h) = ctx h \<and>
         ctx_path_match (ctx (snd (lecp_pop h))) = ctx_path_match (ctx h) \<and>
         ctx_path_match_len (ctx (snd (lecp_pop h))) = ctx_path_match_len (ctx h) \<and>
         ctx_path_match (ctx (snd (lecp_parse h bs))) = ctx_path_match (ctx h) \<and>
         ctx_path_match_len (ctx (snd (lecp_parse h bs))) = ctx_path_match_len (ctx h) \<and>
         ctx_wildcount (ctx (snd (lecp_parse h bs))) = ctx_wildcount (ctx h) \<and>
         ctx_wild (ctx (snd (lecp_parse h bs))) = ctx_wild (ctx h)"
proof -
  let ?m = "(ctx_path_match (ctx h), ctx_path_match_len (ctx h), ctx_wildcount (ctx h),
             ctx_wild (ctx h))"
  have held: "match_held ?m (ctx h)" using assms by (simp add: match_held_def)
  from held_pop [OF held] held_parse [OF held, of bs] check_active_id [OF assms]
  show ?thesis by (simp add: match_held_def)
qed

text \<open>
  After \<open>a2 61 61\<close> (a map and its first name \<open>a\<close>) the pattern \<open>.a\<close> has matched;
  the rest of the map, \<open>01 61 62 81 00\<close>, with its pops, leaves the match index at 1
  and the recorded length at 2.
\<close>

theorem recorded_match_persists_witness:
  "ctx_path_match (ctx (snd (lecp_parse (fresh_ctx accept_all [[0x2E, 0x61]]) [0xA2, 0x61, 0x61])))
     \<noteq> 0 \<and>
   ctx_path_match (ctx (snd (lecp_parse
      (snd (lecp_parse (fresh_ctx accept_all [[0x2E, 0x61]]) [0xA2, 0x61, 0x61]))
      [0x01, 0x61, 0x62, 0x81, 0x00]))) = 1 \<and>
   ctx_path_match_len (ctx (snd (lecp_parse
      (snd (lecp_parse (fresh_ctx accept_all [[0x2E, 0x61]]) [0xA2, 0x61, 0x61]))
      [0x01, 0x61, 0x62, 0x81, 0x00]))) = 2"
proof -
  let ?h = "snd (lecp_parse (fresh_ctx accept_all [[0x2E, 0x61]]) [0xA2, 0x61, 0x61])"
  have m: "ctx_path_match (ctx ?h) = 1 \<and> ctx_path_match_len (ctx ?h) = 2" by code_simp
  then have ne: "ctx_path_match (ctx ?h) \<noteq> 0" by simp
  from recorded_match_persists [OF ne, of "[0x01, 0x61, 0x62, 0x81, 0x00]"] m ne
  show ?thesis by simp
qed

text \<open>
  C7 as stated fails. In the map \<open>{"a": 1, "b": [0]}\<close> with the pattern \<open>.a\<close>, the
  match is recorded at the path \<open>.a\<close>, of length 2. The pop that closes the array
  truncates the path \<open>.b[]\<close> to \<open>.b\<close>, that is to the recorded match length; the
  callback is shown \<open>LECPCB_ARRAY_END\<close> with the match index still 1, although the
  pattern does not match the shortened path (matching it afresh gives 0).
\<close>

theorem match_survives_pop_to_match_length:
  "fst pop_event_example = LECPCB_ARRAY_END \<and>
   take 3 (ctx_path (snd pop_event_example)) = [0x2E, 0x62, 0] \<and>
   ctx_ppos (snd pop_event_example) = 2 \<and>
   ctx_path_match_len (snd pop_event_example) = 2 \<and>
   ctx_path_match (snd pop_event_example) = 1 \<and>
   fst (match_paths (ctx_path (snd pop_event_example)) [[0x2E, 0x61]] 1 0
          (ctx_wild (snd pop_event_example), 0, False)) = 0"
  by code_simp

subsection \<open>Claim C8: the values of integers\<close>

text \<open>
  C8, as amended. Let a head byte be read in the state \<open>LECP_OPC\<close>, followed by any
  bytes \<open>rest\<close>. The first event that the feed delivers then is:
  for an unsigned integer with an immediate minor, \<open>LECPCB_VAL_NUM_UINT\<close> with the
  minor as the \<^verbatim>\<open>u64\<close> of the item;
  for a negative integer with an immediate minor, \<open>LECPCB_VAL_NUM_INT\<close> with
  \<open>-1 - minor\<close> as the \<^verbatim>\<open>i64\<close> of the item;
  on a little-endian host, for a minor 24..27 followed by the 1, 2, 4 or 8 bytes
  \<open>bs\<close> of the argument: for an unsigned integer \<open>LECPCB_VAL_NUM_UINT\<close> with the
  argument \<open>be_nat bs\<close> as the \<^verbatim>\<open>u64\<close>; for a negative integer \<open>LECPCB_VAL_NUM_INT\<close>
  whose \<^verbatim>\<open>i64\<close> is \<open>-1 - argument\<close> when the argument is below \<open>2^63\<close>, and
  \<open>2^64 - 1 - argument\<close> (the same bits, read as a 64-bit signed integer)
  otherwise.
\<close>

theorem integer_values_delivered:
  fixes h :: "'u lecp"
  assumes "st_s (top (ctx h)) = LECP_OPC" and "ctx_sp (ctx h) < length (ctx_st (ctx h))"
  shows
   "(c AND 0xE0 = 0x00 \<and> c AND 0x1F < 24 \<longrightarrow>
       first_reason h (c # rest) = [LECPCB_VAL_NUM_UINT] \<and>
       first_u64 h (c # rest) = [unat (c AND 0x1F)]) \<and>
    (c AND 0xE0 = 0x20 \<and> c AND 0x1F < 24 \<longrightarrow>
       first_reason h (c # rest) = [LECPCB_VAL_NUM_INT] \<and>
       first_i64 h (c # rest) = [- 1 - int (unat (c AND 0x1F))]) \<and>
    (\<not> ctx_be (ctx h) \<and> 24 \<le> c AND 0x1F \<and> c AND 0x1F \<le> 27 \<and>
     length bs = 2 ^ unat ((c AND 0x1F) - 24) \<longrightarrow>
       (c AND 0xE0 = 0x00 \<longrightarrow>
          first_reason h (c # bs @ rest) = [LECPCB_VAL_NUM_UINT] \<and>
          first_u64 h (c # bs @ rest) = [be_nat bs]) \<and>
       (c AND 0xE0 = 0x20 \<longrightarrow>
          first_reason h (c # bs @ rest) = [LECPCB_VAL_NUM_INT] \<and>
          first_i64 h (c # bs @ rest) =
            [if be_nat bs < 2 ^ 63 then - 1 - int (be_nat bs)
             else 2 ^ 64 - 1 - int (be_nat bs)]))"
  using uint_immediate [OF assms(1), of c rest] negint_immediate [OF assms(1), of c rest]
    int_with_argument [OF assms, of c bs rest]
  by blast

theorem integer_values_delivered_witness:
  "first_u64 (fresh_ctx accept_all []) [0x17] = [23] \<and>
   first_i64 (fresh_ctx accept_all []) [0x20] = [- 1] \<and>
   first_reason (fresh_ctx accept_all []) [0x19, 0x01, 0x02] = [LECPCB_VAL_NUM_UINT] \<and>
   first_u64 (fresh_ctx accept_all []) [0x19, 0x01, 0x02] = [258] \<and>
   first_i64 (fresh_ctx accept_all []) [0x38, 0x63] = [- 100]"
proof -
  let ?h = "fresh_ctx accept_all []"
  have s: "st_s (top (ctx ?h)) = LECP_OPC" by code_simp
  have sp: "ctx_sp (ctx ?h) < length (ctx_st (ctx ?h))" by code_simp
  have le: "\<not> ctx_be (ctx ?h)" by code_simp
  from integer_values_delivered [OF s sp, where c = "0x17" and rest = "[]"]
  have a: "first_u64 ?h [0x17] = [23]" by simp
  from integer_values_delivered [OF s sp, where c = "0x20" and rest = "[]"]
  have b: "first_i64 ?h [0x20] = [- 1]" by simp
  from integer_values_delivered [OF s sp, where c = "0x19" and bs = "[0x01, 0x02]"
      and rest = "[]"] le
  have c: "first_reason ?h [0x19, 0x01, 0x02] = [LECPCB_VAL_NUM_UINT] \<and>
           first_u64 ?h [0x19, 0x01, 0x02] = [258]" by simp
  from integer_values_delivered [OF s sp, where c = "0x38" and bs = "[0x63]" and rest = "[]"] le
  have d: "first_i64 ?h [0x38, 0x63] = [- 100]" by simp
  from a b c d show ?thesis by simp
qed

text \<open>
  C8 as stated fails for the negative integers whose argument is \<open>2^63\<close> or more:
  \<open>3b ff ff ff ff ff ff ff ff\<close> has the argument \<open>2^64 - 1\<close>; the value delivered
  with \<open>LECPCB_VAL_NUM_INT\<close> is 0, not \<open>-1 - (2^64 - 1)\<close>, which no \<^verbatim>\<open>int64_t\<close> holds.
\<close>

theorem negint_large_argument_wraps:
  "first_reason (fresh_ctx accept_all [])
     [0x3B, 0xFF, 0xFF, 0xFF, 0xFF, 0xFF, 0xFF, 0xFF, 0xFF] = [LECPCB_VAL_NUM_INT] \<and>
   first_i64 (fresh_ctx accept_all [])
     [0x3B, 0xFF, 0xFF, 0xFF, 0xFF, 0xFF, 0xFF, 0xFF, 0xFF] = [0] \<and>
   - 1 - int (be_nat [0xFF, 0xFF, 0xFF, 0xFF, 0xFF, 0xFF, 0xFF, 0xFF]) = - (2 ^ 64)"
proof -
  have "first_reason (fresh_ctx accept_all [])
     [0x3B, 0xFF, 0xFF, 0xFF, 0xFF, 0xFF, 0xFF, 0xFF, 0xFF] = [LECPCB_VAL_NUM_INT]"
    by code_simp
  moreover have "first_i64 (fresh_ctx accept_all [])
     [0x3B, 0xFF, 0xFF, 0xFF, 0xFF, 0xFF, 0xFF, 0xFF, 0xFF] = [0]"
    by code_simp
  moreover have "- 1 - int (be_nat [0xFF, 0xFF, 0xFF, 0xFF, 0xFF, 0xFF, 0xFF, 0xFF]) = - (2 ^ 64)"
    by simp
  ultimately show ?thesis by blast
qed

text \<open>
  A note on big-endian hosts, which the amended claim leaves out. \<open>ex\<close> starts a
  collection at the first byte of the union there, which for an argument shorter than
  eight bytes is the most significant byte of the \<^verbatim>\<open>u64\<close>: \<open>18 05\<close> (the unsigned
  integer 5 with a one-byte argument) is delivered as \<open>0x0500000000000000\<close>.
\<close>

lemma big_endian_host_short_argument:
  "first_reason fresh_ctx_be [0x18, 0x05] = [LECPCB_VAL_NUM_UINT] \<and>
   map (ctx_item_u \<circ> snd) (take 1 (feed_events fresh_ctx_be [0x18, 0x05])) =
     [0x0500000000000000]"
  by code_simp

subsection \<open>Claim C6: the first pattern that matches\<close>

text \<open>
  C6, as amended. Let no match be active, let the context hold its registered
  patterns (fewer than 256), and let no pattern have more stars than the wildcard
  array has entries. Then \<^verbatim>\<open>lecp_check_path_match\<close> records as match index the 1-based
  index of the first pattern that matches the path, and 0 when none does, where a
  pattern matches iff the two-cursor scan consumes both strings exactly: a literal
  character matches itself, a \<open>*\<close> consumes the path characters up to but not including
  the next \<open>.\<close> (all of them when the \<open>*\<close> ends the pattern), and a \<open>*\<close> is taken only
  while path characters remain. The wildcard count is the number of stars of the
  matching pattern and the wildcard array begins with the path offsets where each of
  them began consuming (count 0 when no pattern matches); on a match the recorded
  match length is the length of the path. By \<open>first_match_index\<close> the index is the
  least one, and by \<open>glob_scan_spec\<close> a pattern that matches here matches in the scan
  without the restriction, with the same offsets.
\<close>

theorem first_matching_pattern_recorded:
  assumes "ctx_path_match c = 0"
    and "ctx_count_paths c = length (ctx_paths c)"
    and "length (ctx_paths c) < 256"
    and "length (ctx_wild c) < 256"
    and "\<forall>pat \<in> set (ctx_paths c). count_list (cstr pat) 0x2A \<le> length (ctx_wild c)"
  shows "ctx_path_match (lecp_check_path_match c) = fst (path_match_of glob_scan c) \<and>
         ctx_wildcount (lecp_check_path_match c) = length (snd (path_match_of glob_scan c)) \<and>
         take (length (snd (path_match_of glob_scan c))) (ctx_wild (lecp_check_path_match c)) =
           map of_nat (snd (path_match_of glob_scan c)) \<and>
         (fst (path_match_of glob_scan c) \<noteq> 0 \<longrightarrow>
            ctx_path_match_len (lecp_check_path_match c) = ctx_ppos c) \<and>
         ctx_ub (lecp_check_path_match c) = ctx_ub c"
proof -
  let ?r = "first_match glob_scan (cstr (ctx_path c)) (map cstr (ctx_paths c)) 0"
  from match_paths_first [OF holds_cstr [of "ctx_path c"] assms(3) assms(4) assms(5), where n = 0
      and ?wild0.0 = "ctx_wild c" and wc = "ctx_wildcount c" and ub = "ctx_ub c"]
  obtain wild' wc' where
    mp: "match_paths (ctx_path c) (ctx_paths c) (length (ctx_paths c)) 0
           (ctx_wild c, ctx_wildcount c, ctx_ub c) = (fst ?r, wild', wc', ctx_ub c)"
    and hit: "fst ?r \<noteq> 0 \<longrightarrow> wc' = length (snd ?r) \<and> take wc' wild' = map of_nat (snd ?r)"
    by auto
  have "?r = (fst ?r, snd ?r)" by simp
  from first_match_index [OF this] have none: "fst ?r = 0 \<Longrightarrow> snd ?r = []"
    by auto
  show ?thesis
  proof (cases "fst ?r = 0")
    case True
    with none show ?thesis
      by (simp add: lecp_check_path_match_def assms(1) assms(2) mp path_match_of_def)
  next
    case False
    with hit have wc: "wc' = length (snd ?r)" and tk0: "take wc' wild' = map of_nat (snd ?r)"
      by blast+
    from tk0 have tk: "take (length (snd ?r)) wild' = map of_nat (snd ?r)"
      by (simp only: wc)
    from False show ?thesis
      by (simp add: lecp_check_path_match_def assms(1) assms(2) mp path_match_of_def wc tk)
  qed
qed

text \<open>
  The path \<open>.a.b\<close> with the patterns \<open>.b\<close> and \<open>.*.*\<close>: the second pattern is recorded, its
  stars began at the offsets 1 and 3.
\<close>

theorem first_matching_pattern_recorded_witness:
  "ctx_path_match match_example = 0 \<and>
   cstr (ctx_path match_example) = [0x2E, 0x61, 0x2E, 0x62] \<and>
   ctx_path_match (lecp_check_path_match match_example) = 2 \<and>
   ctx_wildcount (lecp_check_path_match match_example) = 2 \<and>
   take 2 (ctx_wild (lecp_check_path_match match_example)) = [1, 3] \<and>
   ctx_path_match_len (lecp_check_path_match match_example) = 4"
proof -
  have h1: "ctx_path_match match_example = 0" by code_simp
  have h2: "ctx_count_paths match_example = length (ctx_paths match_example)" by code_simp
  have h3: "length (ctx_paths match_example) < 256" by code_simp
  have h4: "length (ctx_wild match_example) < 256" by code_simp
  have h5: "\<forall>pat \<in> set (ctx_paths match_example).
              count_list (cstr pat) 0x2A \<le> length (ctx_wild match_example)" by code_simp
  have p: "cstr (ctx_path match_example) = [0x2E, 0x61, 0x2E, 0x62]" by code_simp
  have r: "path_match_of glob_scan match_example = (2, [1, 3])" by code_simp
  have l: "ctx_ppos match_example = 4" by code_simp
  from first_matching_pattern_recorded [OF h1 h2 h3 h4 h5] h1 p
  show ?thesis by (simp add: r l numeral_2_eq_2)
qed

text \<open>
  C6 as stated fails. With the pattern \<open>.a*\<close>, the value of the map \<open>{"a": 1}\<close> is
  delivered at the path \<open>.a\<close>. A scan in which the final \<open>*\<close> consumes everything that
  is left, here nothing, consumes both strings and records the offset 2, so the first
  matching pattern is pattern 1. The loop of \<^verbatim>\<open>lecp_check_path_match\<close> stops when the
  path is consumed, before it looks at the \<open>*\<close>: the callback is shown the match index
  0, and matching the path afresh gives 0 again.
\<close>

theorem final_star_on_exhausted_path:
  "fst final_star_example = LECPCB_VAL_NUM_UINT \<and>
   cstr (ctx_path (snd final_star_example)) = [0x2E, 0x61] \<and>
   map cstr (ctx_paths (snd final_star_example)) = [[0x2E, 0x61, 0x2A]] \<and>
   path_match_of spec_glob_scan (snd final_star_example) = (1, [2]) \<and>
   ctx_path_match (snd final_star_example) = 0 \<and>
   ctx_path_match (lecp_check_path_match (snd final_star_example)) = 0"
  by code_simp

end
